theory Spec2Isabelle
  imports Main "HOL-Library.Multiset" "HOL-Library.Char_ord" "HOL-Library.List_Lexorder"
    "HOL-Library.AList" "HOL-Library.Monad_Syntax"
begin

section \<open>Strings and numbers of the Qt library\<close>

text \<open>
  A \<open>QString\<close> is modelled as a list of characters and compared, as \<open>QString::operator<\<close>
  does, lexicographically by the numeric values of its characters. Characters are the
  8-bit \<open>char\<close> of HOL, that is the Latin-1 range of \<open>QChar\<close>.
\<close>

type_synonym QString = string

text \<open>\<open>QString::number(int)\<close>: the decimal digits, with a minus sign for a negative number.\<close>

fun nat_digits :: "nat \<Rightarrow> QString" where
  "nat_digits n =
     (if n < 10 then [char_of (48 + n)]
      else nat_digits (n div 10) @ [char_of (48 + n mod 10)])"

declare nat_digits.simps [simp del]

definition QString_number :: "int \<Rightarrow> QString" where
  "QString_number i =
     (if i < 0 then CHR ''-'' # nat_digits (nat (- i)) else nat_digits (nat i))"

text \<open>\<open>QString::repeated(times)\<close>: the empty string when the count is below one.\<close>

definition repeated :: "QString \<Rightarrow> int \<Rightarrow> QString" where
  "repeated s n = concat (replicate (nat n) s)"

text \<open>
  \<open>QString("%1").arg(number, fieldWidth, 10, QChar('0'))\<close>: the number padded with zeros to
  the field width; Qt puts the zeros to the right of a minus sign.
\<close>

definition arg_zero_padded :: "int \<Rightarrow> nat \<Rightarrow> QString" where
  "arg_zero_padded number fieldWidth =
     (if number < 0
      then (let d = nat_digits (nat (- number))
            in CHR ''-'' # replicate (fieldWidth - 1 - length d) CHR ''0'' @ d)
      else (let d = nat_digits (nat number)
            in replicate (fieldWidth - length d) CHR ''0'' @ d))"

text \<open>\<open>QChar::isSpace\<close> and \<open>QChar::isDigit\<close> on the Latin-1 range.\<close>

definition isSpace :: "char \<Rightarrow> bool" where
  "isSpace c = (let n = (of_char c :: nat) in (9 \<le> n \<and> n \<le> 13) \<or> n = 32 \<or> n = 133 \<or> n = 160)"

definition isDigit :: "char \<Rightarrow> bool" where
  "isDigit c = (let n = (of_char c :: nat) in 48 \<le> n \<and> n \<le> 57)"

text \<open>\<open>QChar::isLetter\<close> on the Latin-1 range (Unicode categories L*).\<close>

definition isLetter :: "char \<Rightarrow> bool" where
  "isLetter c =
     (let n = (of_char c :: nat)
      in (65 \<le> n \<and> n \<le> 90) \<or> (97 \<le> n \<and> n \<le> 122) \<or> n = 170 \<or> n = 181 \<or> n = 186 \<or>
         (192 \<le> n \<and> n \<le> 214) \<or> (216 \<le> n \<and> n \<le> 246) \<or> (248 \<le> n \<and> n \<le> 255))"

text \<open>
  \<open>QString::toInt()\<close> in base 10: white space around the number is skipped, one sign is
  read, every other character must be a digit; the result is 0 when the conversion
  fails or the value does not fit a 32-bit \<open>int\<close>.
\<close>

definition digits_value :: "QString \<Rightarrow> nat" where
  "digits_value ds = foldl (\<lambda>acc c. 10 * acc + (of_char c - 48)) 0 ds"

definition trimmed :: "QString \<Rightarrow> QString" where
  "trimmed s = rev (dropWhile isSpace (rev (dropWhile isSpace s)))"

definition parse_int :: "QString \<Rightarrow> int option" where
  "parse_int s =
     (let t = trimmed s;
          neg = (t \<noteq> [] \<and> hd t = CHR ''-'');
          ds = (if t \<noteq> [] \<and> (hd t = CHR ''-'' \<or> hd t = CHR ''+'') then tl t else t)
      in if ds = [] \<or> \<not> list_all isDigit ds then None
         else (let v = (if neg then - int (digits_value ds) else int (digits_value ds))
               in if - 2147483648 \<le> v \<and> v \<le> 2147483647 then Some v else None))"

definition toInt :: "QString \<Rightarrow> int" where
  "toInt s = (case parse_int s of None \<Rightarrow> 0 | Some v \<Rightarrow> v)"

text \<open>
  The value of a 32-bit two's complement \<open>int\<close> that an arithmetic result wraps around to.
\<close>

definition int32 :: "int \<Rightarrow> int" where
  "int32 v = (v + 2147483648) mod 4294967296 - 2147483648"

text \<open>The quotient of C++ \<open>int\<close> division, which truncates towards zero.\<close>

definition cdiv :: "int \<Rightarrow> int \<Rightarrow> int" where
  "cdiv a b = (if (a < 0) = (b < 0) then \<bar>a\<bar> div \<bar>b\<bar> else - (\<bar>a\<bar> div \<bar>b\<bar>))"

section \<open>Songs, grouping criteria and the collaborators outside the file\<close>

text \<open>
  The fields of a song that \<open>collectionmodel.cpp\<close> reads. \<open>rating\<close> and \<open>playcount\<close> stand
  for the rating and play statistics, which no function of the file reads.
\<close>

record Song =
  song_id :: int
  title :: QString
  artist :: QString
  albumartist :: QString
  album :: QString
  album_id :: QString
  track :: int
  disc :: int
  year :: int
  originalyear :: int
  genre :: QString
  compilation :: bool
  composer :: QString
  performer :: QString
  grouping :: QString
  filetype :: int
  samplerate :: int
  bitdepth :: int
  bitrate :: int
  url :: QString
  rating :: int
  playcount :: int

datatype GroupBy =
    GroupBy_None
  | GroupBy_AlbumArtist
  | GroupBy_Artist
  | GroupBy_Album
  | GroupBy_AlbumDisc
  | GroupBy_YearAlbum
  | GroupBy_YearAlbumDisc
  | GroupBy_OriginalYearAlbum
  | GroupBy_OriginalYearAlbumDisc
  | GroupBy_Disc
  | GroupBy_Year
  | GroupBy_OriginalYear
  | GroupBy_Genre
  | GroupBy_Composer
  | GroupBy_Performer
  | GroupBy_Grouping
  | GroupBy_FileType
  | GroupBy_Format
  | GroupBy_Samplerate
  | GroupBy_Bitdepth
  | GroupBy_Bitrate
  | GroupBy_GroupByCount

record Grouping =
  first :: GroupBy
  second :: GroupBy
  third :: GroupBy

text \<open>\<open>Grouping::operator[]\<close>: an index out of range is logged and answered with \<open>first\<close>.\<close>

definition Grouping_at :: "Grouping \<Rightarrow> int \<Rightarrow> GroupBy" where
  "Grouping_at g i = (if i = 0 then first g else if i = 1 then second g else if i = 2 then third g else first g)"

text \<open>
  What the file calls and does not define is a parameter of the model: the methods of
  \<open>Song\<close> and of the filter options, the translation \<open>tr\<close>, and the Unicode tables behind
  \<open>QString::toLower\<close>, \<open>QString::toUpper\<close>, \<open>QString::remove(QRegularExpression("[^\\w ]"))\<close> and
  \<open>QChar::decomposition\<close> (the empty string for a character with no decomposition).
  \<open>number_G5\<close> is \<open>QString::number(samplerate / 1000.0, 'G', 5)\<close>.
\<close>

record Lib =
  Matches :: "Song \<Rightarrow> bool"
  effective_albumartist :: "Song \<Rightarrow> QString"
  effective_originalyear :: "Song \<Rightarrow> int"
  is_compilation :: "Song \<Rightarrow> bool"
  IsEditable :: "Song \<Rightarrow> bool"
  TextForFiletype :: "Song \<Rightarrow> QString"
  TitleWithCompilationArtist :: "Song \<Rightarrow> QString"
  AlbumContainsDisc :: "QString \<Rightarrow> bool"
  kArticles :: "QString list"
  tr :: "QString \<Rightarrow> QString"
  toLower :: "QString \<Rightarrow> QString"
  remove_non_word :: "QString \<Rightarrow> QString"
  decomposition :: "char \<Rightarrow> QString"
  toUpper :: "QString \<Rightarrow> QString"
  number_G5 :: "int \<Rightarrow> QString"
  Song_default :: Song

definition kVariousArtists :: QString where
  "kVariousArtists = ''Various artists''"

definition IsArtistGroupBy :: "GroupBy \<Rightarrow> bool" where
  "IsArtistGroupBy group_by = (group_by = GroupBy_Artist \<or> group_by = GroupBy_AlbumArtist)"

definition IsAlbumGroupBy :: "GroupBy \<Rightarrow> bool" where
  "IsAlbumGroupBy group_by =
     (group_by = GroupBy_Album \<or> group_by = GroupBy_YearAlbum \<or> group_by = GroupBy_AlbumDisc \<or>
      group_by = GroupBy_YearAlbumDisc \<or> group_by = GroupBy_OriginalYearAlbum \<or>
      group_by = GroupBy_OriginalYearAlbumDisc)"

section \<open>The key and sort text engine\<close>

definition TextOrUnknown :: "Lib \<Rightarrow> QString \<Rightarrow> QString" where
  "TextOrUnknown L text = (if text = [] then tr L ''Unknown'' else text)"

definition PrettyYearAlbum :: "Lib \<Rightarrow> int \<Rightarrow> QString \<Rightarrow> QString" where
  "PrettyYearAlbum L yr alb =
     (if yr \<le> 0 then TextOrUnknown L alb
      else QString_number yr @ '' - '' @ TextOrUnknown L alb)"

definition PrettyAlbumDisc :: "Lib \<Rightarrow> QString \<Rightarrow> int \<Rightarrow> QString" where
  "PrettyAlbumDisc L alb dsc =
     (if dsc \<le> 0 \<or> AlbumContainsDisc L alb then TextOrUnknown L alb
      else TextOrUnknown L alb @ '' - (Disc '' @ QString_number dsc @ '')'')"

definition PrettyYearAlbumDisc :: "Lib \<Rightarrow> int \<Rightarrow> QString \<Rightarrow> int \<Rightarrow> QString" where
  "PrettyYearAlbumDisc L yr alb dsc =
     (let str = (if yr \<le> 0 then TextOrUnknown L alb
                 else QString_number yr @ '' - '' @ TextOrUnknown L alb)
      in if \<not> AlbumContainsDisc L alb \<and> dsc > 0
         then str @ '' - (Disc '' @ QString_number dsc @ '')'' else str)"

definition PrettyDisc :: "int \<Rightarrow> QString" where
  "PrettyDisc dsc = ''Disc '' @ QString_number (max 1 dsc)"

definition SortText :: "Lib \<Rightarrow> QString \<Rightarrow> QString" where
  "SortText L text =
     remove_non_word L (if text = [] then '' unknown'' else toLower L text)"

text \<open>The loop over \<open>Song::kArticles\<close> stops at the first article the text starts with.\<close>

fun skip_article :: "QString list \<Rightarrow> QString \<Rightarrow> QString" where
  "skip_article [] art = art"
| "skip_article (i # rest) art =
     (if take (length i) art = i \<and> length i \<le> length art
      then drop (length i) art @ '', '' @ take (length i - 1) i
      else skip_article rest art)"

definition SortTextForArtist :: "Lib \<Rightarrow> QString \<Rightarrow> bool \<Rightarrow> QString" where
  "SortTextForArtist L art skip_articles =
     (let a = SortText L art in if skip_articles then skip_article (kArticles L) a else a)"

definition SortTextForNumber :: "int \<Rightarrow> QString" where
  "SortTextForNumber number = arg_zero_padded number 4"

definition SortTextForYear :: "int \<Rightarrow> QString" where
  "SortTextForYear yr =
     (let str = QString_number yr in repeated ''0'' (max 0 (4 - int (length str))) @ str)"

definition SortTextForBitrate :: "int \<Rightarrow> QString" where
  "SortTextForBitrate br =
     (let str = QString_number br in repeated ''0'' (max 0 (3 - int (length str))) @ str)"

text \<open>
  The disc and track numbers are C++ \<open>int\<close>s and so is \<open>disc * 1000 + track\<close>: the result is
  the value a 32-bit \<open>int\<close> holds after the product and the sum have wrapped around.
\<close>

definition SortTextForSong :: "Song \<Rightarrow> QString" where
  "SortTextForSong song =
     (let ret = QString_number (int32 (int32 (max 0 (disc song) * 1000) + max 0 (track song)))
      in repeated ''0'' (6 - int (length ret)) @ ret @ url song)"

text \<open>The suffix the album-like keys share: the album id and, when asked for, the grouping tag.\<close>

definition album_key_suffix :: "bool \<Rightarrow> Song \<Rightarrow> QString \<Rightarrow> QString" where
  "album_key_suffix separate_albums_by_grouping song k =
     (let k1 = (if album_id song \<noteq> [] then k @ ''-'' @ album_id song else k)
      in if separate_albums_by_grouping \<and> grouping song \<noteq> [] then k1 @ ''-'' @ grouping song else k1)"

fun ContainerKey :: "Lib \<Rightarrow> GroupBy \<Rightarrow> bool \<Rightarrow> Song \<Rightarrow> QString" where
  "ContainerKey L GroupBy_AlbumArtist sep song = TextOrUnknown L (effective_albumartist L song)"
| "ContainerKey L GroupBy_Artist sep song = TextOrUnknown L (artist song)"
| "ContainerKey L GroupBy_Album sep song =
     album_key_suffix sep song (TextOrUnknown L (album song))"
| "ContainerKey L GroupBy_AlbumDisc sep song =
     album_key_suffix sep song (PrettyAlbumDisc L (album song) (disc song))"
| "ContainerKey L GroupBy_YearAlbum sep song =
     album_key_suffix sep song (PrettyYearAlbum L (year song) (album song))"
| "ContainerKey L GroupBy_YearAlbumDisc sep song =
     album_key_suffix sep song (PrettyYearAlbumDisc L (year song) (album song) (disc song))"
| "ContainerKey L GroupBy_OriginalYearAlbum sep song =
     album_key_suffix sep song (PrettyYearAlbum L (effective_originalyear L song) (album song))"
| "ContainerKey L GroupBy_OriginalYearAlbumDisc sep song =
     album_key_suffix sep song
       (PrettyYearAlbumDisc L (effective_originalyear L song) (album song) (disc song))"
| "ContainerKey L GroupBy_Disc sep song = PrettyDisc (disc song)"
| "ContainerKey L GroupBy_Year sep song = QString_number (max 0 (year song))"
| "ContainerKey L GroupBy_OriginalYear sep song =
     QString_number (max 0 (effective_originalyear L song))"
| "ContainerKey L GroupBy_Genre sep song = TextOrUnknown L (genre song)"
| "ContainerKey L GroupBy_Composer sep song = TextOrUnknown L (composer song)"
| "ContainerKey L GroupBy_Performer sep song = TextOrUnknown L (performer song)"
| "ContainerKey L GroupBy_Grouping sep song = TextOrUnknown L (grouping song)"
| "ContainerKey L GroupBy_FileType sep song = TextForFiletype L song"
| "ContainerKey L GroupBy_Samplerate sep song = QString_number (max 0 (samplerate song))"
| "ContainerKey L GroupBy_Bitdepth sep song = QString_number (max 0 (bitdepth song))"
| "ContainerKey L GroupBy_Bitrate sep song = QString_number (max 0 (bitrate song))"
| "ContainerKey L GroupBy_Format sep song =
     (if samplerate song \<le> 0 then TextForFiletype L song
      else if bitdepth song \<le> 0
        then TextForFiletype L song @ '' ('' @ number_G5 L (samplerate song) @ '')''
        else TextForFiletype L song @ '' ('' @ number_G5 L (samplerate song) @ ''/'' @
             QString_number (bitdepth song) @ '')'')"
| "ContainerKey L GroupBy_None sep song = []"
| "ContainerKey L GroupBy_GroupByCount sep song = []"

section \<open>Tree items and the model\<close>

datatype Type = Type_Root | Type_Divider | Type_Container | Type_Song | Type_LoadingIndicator

text \<open>
  An item lives at an address of the store \<open>items\<close>; a pointer is an address, a pointer that
  may be null an optional one. The fields are those of \<open>CollectionItem\<close> that the file reads.
\<close>

type_synonym ptr = nat

record CollectionItem =
  type :: Type
  parent :: "ptr option"
  row :: int
  children :: "ptr list"
  key :: QString
  display_text :: QString
  sort_text :: QString
  metadata :: Song
  container_level :: int
  compilation_artist_node :: "ptr option"

datatype QModelIndex = InvalidIndex | Index int ptr

datatype Signal =
    beginInsertRows QModelIndex int int
  | endInsertRows
  | beginRemoveRows QModelIndex int int
  | endRemoveRows
  | dataChanged QModelIndex QModelIndex
  | beginResetModel
  | endResetModel

datatype UpdateType = Update_Add | Update_Remove | Update_ReAddOrUpdate | Update_Update

datatype CollectionModelUpdate = CollectionModelUpdate UpdateType "Song list"

text \<open>
  The members of \<open>CollectionModel\<close> that the tree index and the update scheduler use.
  \<open>signals\<close> is the sequence of notifications emitted so far and \<open>error_log\<close> what
  \<open>qLog(Error)\<close> has written. The three maps of \<open>container_nodes_\<close> are association lists,
  since \<open>RemoveSongs\<close> enumerates their values. The artwork cache (pixmap cache, pending
  art requests) is outside the model.
\<close>

record CollectionModel =
  items :: "ptr \<rightharpoonup> CollectionItem"
  next_item :: ptr
  root :: "ptr option"
  songs :: "int \<rightharpoonup> Song"
  song_nodes :: "int \<rightharpoonup> ptr"
  container_nodes :: "nat \<Rightarrow> (QString \<times> ptr) list"
  divider_nodes :: "QString \<rightharpoonup> ptr"
  group_by :: Grouping
  separate_albums_by_grouping :: bool
  sort_skips_articles :: bool
  show_dividers :: bool
  updates :: "CollectionModelUpdate list"
  timer_update_active :: bool
  signals :: "Signal list"
  error_log :: "QString list"

definition emit :: "Signal \<Rightarrow> CollectionModel \<Rightarrow> CollectionModel" where
  "emit sg s = s\<lparr>signals := signals s @ [sg]\<rparr>"

definition qLog_Error :: "QString \<Rightarrow> CollectionModel \<Rightarrow> CollectionModel" where
  "qLog_Error msg s = s\<lparr>error_log := error_log s @ [msg]\<rparr>"

text \<open>
  Modelled from the spec: the constructors of \<open>CollectionItem\<close> and \<open>SimpleTreeItem\<close> are not
  in the file. Root is a node kind of its own, made by \<open>new CollectionItem(model)\<close> with no
  parent; \<open>new CollectionItem(type, parent)\<close> appends the new item to the children of a
  parent that is not null and gives it the next position index. A dereferenced pointer that is not the address of a
  live item makes the operation fail (\<open>None\<close>).
\<close>

definition blank_item :: "Lib \<Rightarrow> Type \<Rightarrow> ptr option \<Rightarrow> int \<Rightarrow> CollectionItem" where
  "blank_item L t par r =
     \<lparr>type = t, parent = par, row = r, children = [], key = [], display_text = [],
      sort_text = [], metadata = Song_default L, container_level = - 1,
      compilation_artist_node = None\<rparr>"

definition new_root_item :: "Lib \<Rightarrow> CollectionModel \<Rightarrow> ptr \<times> CollectionModel" where
  "new_root_item L s =
     (next_item s,
      s\<lparr>items := (items s)(next_item s \<mapsto> blank_item L Type_Root None (- 1)),
        next_item := Suc (next_item s)\<rparr>)"

definition new_CollectionItem ::
  "Lib \<Rightarrow> Type \<Rightarrow> ptr option \<Rightarrow> CollectionModel \<Rightarrow> (ptr \<times> CollectionModel) option" where
  "new_CollectionItem L t par s =
     (case par of
        None \<Rightarrow>
          Some (next_item s,
            s\<lparr>items := (items s)(next_item s \<mapsto> blank_item L t None (- 1)),
              next_item := Suc (next_item s)\<rparr>)
      | Some pp \<Rightarrow>
          (case items s pp of
             None \<Rightarrow> None
           | Some pit \<Rightarrow>
               Some (next_item s,
                 s\<lparr>items := (items s)
                       (pp \<mapsto> pit\<lparr>children := children pit @ [next_item s]\<rparr>,
                        next_item s \<mapsto> blank_item L t (Some pp) (int (length (children pit)))),
                   next_item := Suc (next_item s)\<rparr>)))"

text \<open>
  Modelled from the spec: \<open>SimpleTreeModel::ItemToIndex\<close> is not in the file. The root (the
  item without parent) has the invalid index, any other item the index of its position.
\<close>

definition ItemToIndex :: "CollectionModel \<Rightarrow> ptr \<Rightarrow> QModelIndex option" where
  "ItemToIndex s p =
     (case items s p of
        None \<Rightarrow> None
      | Some it \<Rightarrow> Some (if parent it = None then InvalidIndex else Index (row it) p))"

text \<open>\<open>beginInsertRows(ItemToIndex(parent), parent->children.count(), parent->children.count())\<close>\<close>

definition begin_insert_at_end :: "ptr \<Rightarrow> CollectionModel \<Rightarrow> CollectionModel option" where
  "begin_insert_at_end par s =
     (case (ItemToIndex s par, items s par) of
        (Some idx, Some pit) \<Rightarrow>
          Some (emit (beginInsertRows idx (int (length (children pit))) (int (length (children pit)))) s)
      | _ \<Rightarrow> None)"

definition update_item :: "ptr \<Rightarrow> (CollectionItem \<Rightarrow> CollectionItem) \<Rightarrow> CollectionModel \<Rightarrow> CollectionModel option" where
  "update_item p f s =
     (case items s p of None \<Rightarrow> None | Some it \<Rightarrow> Some (s\<lparr>items := (items s)(p \<mapsto> f it)\<rparr>))"

definition CreateCompilationArtistNode ::
  "Lib \<Rightarrow> bool \<Rightarrow> ptr \<Rightarrow> CollectionModel \<Rightarrow> (ptr \<times> CollectionModel) option" where
  "CreateCompilationArtistNode L signal par s = do {
     s1 \<leftarrow> (if signal then begin_insert_at_end par s else Some s);
     (c, s2) \<leftarrow> new_CollectionItem L Type_Container (Some par) s1;
     pit \<leftarrow> items s2 par;
     s3 \<leftarrow> update_item c (\<lambda>it. it\<lparr>
             compilation_artist_node := None,
             key := (if Some par \<noteq> root s2 \<and> key pit \<noteq> [] then key pit else []) @ tr L kVariousArtists,
             display_text := tr L kVariousArtists,
             sort_text := '' various'',
             container_level := container_level pit + 1\<rparr>) s2;
     s4 \<leftarrow> update_item par (\<lambda>it. it\<lparr>compilation_artist_node := Some c\<rparr>) s3;
     Some (c, if signal then emit endInsertRows s4 else s4)
   }"

fun DividerKey :: "Lib \<Rightarrow> GroupBy \<Rightarrow> CollectionItem \<Rightarrow> QString" where
  "DividerKey L gb it =
     (if sort_text it = [] then []
      else if gb \<in> {GroupBy_AlbumArtist, GroupBy_Artist, GroupBy_Album, GroupBy_AlbumDisc,
                     GroupBy_Composer, GroupBy_Performer, GroupBy_Grouping, GroupBy_Disc,
                     GroupBy_Genre, GroupBy_Format, GroupBy_FileType}
      then (let c = hd (sort_text it)
            in if isDigit c then ''0''
               else if c = CHR '' '' then []
               else (case decomposition L c of [] \<Rightarrow> [c] | d # _ \<Rightarrow> [d]))
      else if gb \<in> {GroupBy_Year, GroupBy_OriginalYear}
      then SortTextForNumber (cdiv (toInt (sort_text it)) 10 * 10)
      else if gb \<in> {GroupBy_YearAlbum, GroupBy_YearAlbumDisc}
      then SortTextForNumber (year (metadata it))
      else if gb \<in> {GroupBy_OriginalYearAlbum, GroupBy_OriginalYearAlbumDisc}
      then SortTextForNumber (effective_originalyear L (metadata it))
      else if gb = GroupBy_Samplerate then SortTextForNumber (samplerate (metadata it))
      else if gb = GroupBy_Bitdepth then SortTextForNumber (bitdepth (metadata it))
      else if gb = GroupBy_Bitrate then SortTextForNumber (bitrate (metadata it))
      else [])"

declare DividerKey.simps [simp del]

definition DividerDisplayText :: "Lib \<Rightarrow> GroupBy \<Rightarrow> QString \<Rightarrow> QString" where
  "DividerDisplayText L gb k =
     (if gb \<in> {GroupBy_AlbumArtist, GroupBy_Artist, GroupBy_Album, GroupBy_AlbumDisc,
                GroupBy_Composer, GroupBy_Performer, GroupBy_Disc, GroupBy_Grouping,
                GroupBy_Genre, GroupBy_FileType, GroupBy_Format}
      then (if k = ''0'' then ''0-9'' else toUpper L k)
      else if gb \<in> {GroupBy_YearAlbum, GroupBy_YearAlbumDisc, GroupBy_OriginalYearAlbum,
                     GroupBy_OriginalYearAlbumDisc}
      then (if k = ''0000'' then tr L ''Unknown'' else toUpper L k)
      else if gb \<in> {GroupBy_Year, GroupBy_OriginalYear}
      then (if k = ''0000'' then tr L ''Unknown'' else QString_number (toInt k))
      else if gb \<in> {GroupBy_Samplerate, GroupBy_Bitdepth, GroupBy_Bitrate}
      then (if k = ''000'' then tr L ''Unknown'' else QString_number (toInt k))
      else [])"

definition InitItem ::
  "Lib \<Rightarrow> GroupBy \<Rightarrow> bool \<Rightarrow> ptr \<Rightarrow> int \<Rightarrow> CollectionModel \<Rightarrow> (ptr \<times> CollectionModel) option" where
  "InitItem L gb signal par lvl s = do {
     s1 \<leftarrow> (if signal then begin_insert_at_end par s else Some s);
     (p, s2) \<leftarrow> new_CollectionItem L (if gb = GroupBy_None then Type_Song else Type_Container) (Some par) s1;
     s3 \<leftarrow> update_item p (\<lambda>it. it\<lparr>compilation_artist_node := None, container_level := lvl\<rparr>) s2;
     Some (p, s3)
   }"

text \<open>The \<open>switch\<close> of \<open>ItemFromSong\<close>: what each grouping criterion writes into the new item.\<close>

definition no_positive :: "int \<Rightarrow> int" where
  "no_positive v = (if v \<le> 0 then - 1 else v)"

fun fill_item :: "Lib \<Rightarrow> CollectionModel \<Rightarrow> GroupBy \<Rightarrow> bool \<Rightarrow> Song \<Rightarrow> CollectionItem \<Rightarrow> CollectionItem" where
  "fill_item L s GroupBy_AlbumArtist sep sg it =
     it\<lparr>metadata := (metadata it)\<lparr>albumartist := effective_albumartist L sg\<rparr>,
        key := key it @ ContainerKey L GroupBy_AlbumArtist sep sg,
        display_text := TextOrUnknown L (effective_albumartist L sg),
        sort_text := SortTextForArtist L (effective_albumartist L sg) (sort_skips_articles s)\<rparr>"
| "fill_item L s GroupBy_Artist sep sg it =
     it\<lparr>metadata := (metadata it)\<lparr>artist := artist sg\<rparr>,
        key := key it @ ContainerKey L GroupBy_Artist sep sg,
        display_text := TextOrUnknown L (artist sg),
        sort_text := SortTextForArtist L (artist sg) (sort_skips_articles s)\<rparr>"
| "fill_item L s GroupBy_Album sep sg it =
     it\<lparr>metadata := (metadata it)\<lparr>album := album sg, album_id := album_id sg, grouping := grouping sg\<rparr>,
        key := key it @ ContainerKey L GroupBy_Album sep sg,
        display_text := TextOrUnknown L (album sg),
        sort_text := SortTextForArtist L (album sg) (sort_skips_articles s)\<rparr>"
| "fill_item L s GroupBy_AlbumDisc sep sg it =
     it\<lparr>metadata := (metadata it)\<lparr>album := album sg, album_id := album_id sg,
                                  disc := no_positive (disc sg), grouping := grouping sg\<rparr>,
        key := key it @ ContainerKey L GroupBy_AlbumDisc sep sg,
        display_text := PrettyAlbumDisc L (album sg) (disc sg),
        sort_text := album sg @ SortTextForNumber (max 0 (disc sg))\<rparr>"
| "fill_item L s GroupBy_YearAlbum sep sg it =
     it\<lparr>metadata := (metadata it)\<lparr>year := no_positive (year sg), album := album sg,
                                  album_id := album_id sg, grouping := grouping sg\<rparr>,
        key := key it @ ContainerKey L GroupBy_YearAlbum sep sg,
        display_text := PrettyYearAlbum L (year sg) (album sg),
        sort_text := SortTextForNumber (max 0 (year sg)) @ grouping sg @ album sg\<rparr>"
| "fill_item L s GroupBy_YearAlbumDisc sep sg it =
     it\<lparr>metadata := (metadata it)\<lparr>year := no_positive (year sg), album := album sg,
                                  album_id := album_id sg, disc := no_positive (disc sg),
                                  grouping := grouping sg\<rparr>,
        key := key it @ ContainerKey L GroupBy_YearAlbumDisc sep sg,
        display_text := PrettyYearAlbumDisc L (year sg) (album sg) (disc sg),
        sort_text := SortTextForNumber (max 0 (year sg)) @ album sg @ SortTextForNumber (max 0 (disc sg))\<rparr>"
| "fill_item L s GroupBy_OriginalYearAlbum sep sg it =
     it\<lparr>metadata := (metadata it)\<lparr>year := no_positive (year sg),
                                  originalyear := no_positive (originalyear sg), album := album sg,
                                  album_id := album_id sg, grouping := grouping sg\<rparr>,
        key := key it @ ContainerKey L GroupBy_OriginalYearAlbum sep sg,
        display_text := PrettyYearAlbum L (effective_originalyear L sg) (album sg),
        sort_text := SortTextForNumber (max 0 (effective_originalyear L sg)) @ grouping sg @ album sg\<rparr>"
| "fill_item L s GroupBy_OriginalYearAlbumDisc sep sg it =
     it\<lparr>metadata := (metadata it)\<lparr>year := no_positive (year sg),
                                  originalyear := no_positive (originalyear sg), album := album sg,
                                  album_id := album_id sg, disc := no_positive (disc sg),
                                  grouping := grouping sg\<rparr>,
        key := key it @ ContainerKey L GroupBy_OriginalYearAlbumDisc sep sg,
        display_text := PrettyYearAlbumDisc L (effective_originalyear L sg) (album sg) (disc sg),
        sort_text := SortTextForNumber (max 0 (effective_originalyear L sg)) @ album sg @
                     SortTextForNumber (max 0 (disc sg))\<rparr>"
| "fill_item L s GroupBy_Disc sep sg it =
     it\<lparr>metadata := (metadata it)\<lparr>disc := no_positive (disc sg)\<rparr>,
        key := key it @ ContainerKey L GroupBy_Disc sep sg,
        display_text := PrettyDisc (max 0 (disc sg)),
        sort_text := SortTextForNumber (max 0 (disc sg))\<rparr>"
| "fill_item L s GroupBy_Year sep sg it =
     it\<lparr>metadata := (metadata it)\<lparr>year := no_positive (year sg)\<rparr>,
        key := key it @ ContainerKey L GroupBy_Year sep sg,
        display_text := QString_number (max 0 (year sg)),
        sort_text := SortTextForNumber (max 0 (year sg)) @ '' ''\<rparr>"
| "fill_item L s GroupBy_OriginalYear sep sg it =
     it\<lparr>metadata := (metadata it)\<lparr>originalyear := no_positive (effective_originalyear L sg)\<rparr>,
        key := key it @ ContainerKey L GroupBy_OriginalYear sep sg,
        display_text := QString_number (max 0 (effective_originalyear L sg)),
        sort_text := SortTextForNumber (max 0 (effective_originalyear L sg)) @ '' ''\<rparr>"
| "fill_item L s GroupBy_Genre sep sg it =
     it\<lparr>metadata := (metadata it)\<lparr>genre := genre sg\<rparr>,
        key := key it @ ContainerKey L GroupBy_Genre sep sg,
        display_text := TextOrUnknown L (genre sg),
        sort_text := SortTextForArtist L (genre sg) (sort_skips_articles s)\<rparr>"
| "fill_item L s GroupBy_Composer sep sg it =
     it\<lparr>metadata := (metadata it)\<lparr>composer := composer sg\<rparr>,
        key := key it @ ContainerKey L GroupBy_Composer sep sg,
        display_text := TextOrUnknown L (composer sg),
        sort_text := SortTextForArtist L (composer sg) (sort_skips_articles s)\<rparr>"
| "fill_item L s GroupBy_Performer sep sg it =
     it\<lparr>metadata := (metadata it)\<lparr>performer := performer sg\<rparr>,
        key := key it @ ContainerKey L GroupBy_Performer sep sg,
        display_text := TextOrUnknown L (performer sg),
        sort_text := SortTextForArtist L (performer sg) (sort_skips_articles s)\<rparr>"
| "fill_item L s GroupBy_Grouping sep sg it =
     it\<lparr>metadata := (metadata it)\<lparr>grouping := grouping sg\<rparr>,
        key := key it @ ContainerKey L GroupBy_Grouping sep sg,
        display_text := TextOrUnknown L (grouping sg),
        sort_text := SortTextForArtist L (grouping sg) (sort_skips_articles s)\<rparr>"
| "fill_item L s GroupBy_FileType sep sg it =
     it\<lparr>metadata := (metadata it)\<lparr>filetype := filetype sg\<rparr>,
        key := key it @ ContainerKey L GroupBy_FileType sep sg,
        display_text := TextForFiletype L sg,
        sort_text := TextForFiletype L sg\<rparr>"
| "fill_item L s GroupBy_Format sep sg it =
     it\<lparr>metadata := (metadata it)\<lparr>filetype := filetype sg, samplerate := samplerate sg,
                                  bitdepth := bitdepth sg\<rparr>,
        key := key it @ ContainerKey L GroupBy_Format sep sg,
        display_text := ContainerKey L GroupBy_Format sep sg,
        sort_text := ContainerKey L GroupBy_Format sep sg\<rparr>"
| "fill_item L s GroupBy_Samplerate sep sg it =
     it\<lparr>metadata := (metadata it)\<lparr>samplerate := samplerate sg\<rparr>,
        key := key it @ ContainerKey L GroupBy_Samplerate sep sg,
        display_text := QString_number (max 0 (samplerate sg)),
        sort_text := SortTextForNumber (max 0 (samplerate sg)) @ '' ''\<rparr>"
| "fill_item L s GroupBy_Bitdepth sep sg it =
     it\<lparr>metadata := (metadata it)\<lparr>bitdepth := bitdepth sg\<rparr>,
        key := key it @ ContainerKey L GroupBy_Bitdepth sep sg,
        display_text := QString_number (max 0 (bitdepth sg)),
        sort_text := SortTextForNumber (max 0 (bitdepth sg)) @ '' ''\<rparr>"
| "fill_item L s GroupBy_Bitrate sep sg it =
     it\<lparr>metadata := (metadata it)\<lparr>bitrate := bitrate sg\<rparr>,
        key := key it @ ContainerKey L GroupBy_Bitrate sep sg,
        display_text := QString_number (max 0 (bitrate sg)),
        sort_text := SortTextForNumber (max 0 (bitrate sg)) @ '' ''\<rparr>"
| "fill_item L s GroupBy_None sep sg it =
     it\<lparr>metadata := sg,
        key := key it @ TextOrUnknown L (title sg),
        display_text := TitleWithCompilationArtist L sg,
        sort_text := (if container_level it = 1 \<and> \<not> IsAlbumGroupBy (Grouping_at (group_by s) 0)
                      then SortText L (title sg) else SortTextForSong sg)\<rparr>"
| "fill_item L s GroupBy_GroupByCount sep sg it =
     it\<lparr>metadata := sg,
        key := key it @ TextOrUnknown L (title sg),
        display_text := TitleWithCompilationArtist L sg,
        sort_text := (if container_level it = 1 \<and> \<not> IsAlbumGroupBy (Grouping_at (group_by s) 0)
                      then SortText L (title sg) else SortTextForSong sg)\<rparr>"

definition FinishItem ::
  "Lib \<Rightarrow> GroupBy \<Rightarrow> bool \<Rightarrow> bool \<Rightarrow> ptr \<Rightarrow> ptr \<Rightarrow> CollectionModel \<Rightarrow> CollectionModel option" where
  "FinishItem L gb signal create_divider par p s =
     (let s1 = (if signal then emit endInsertRows s else s)
      in if create_divider \<and> show_dividers s1
         then do {
           it \<leftarrow> items s1 p;
           let dk = DividerKey L gb it;
           s2 \<leftarrow> (if dk \<noteq> []
                  then update_item p (\<lambda>i. i\<lparr>sort_text := dk @ '' '' @ sort_text i\<rparr>) s1
                  else Some s1);
           if dk \<noteq> [] \<and> divider_nodes s2 dk = None
           then do {
             s3 \<leftarrow> (if signal then begin_insert_at_end par s2 else Some s2);
             (d, s4) \<leftarrow> new_CollectionItem L Type_Divider (root s3) s3;
             s5 \<leftarrow> update_item d (\<lambda>i. i\<lparr>key := dk, display_text := DividerDisplayText L gb dk,
                                          sort_text := dk @ ''  ''\<rparr>) s4;
             let s6 = s5\<lparr>divider_nodes := (divider_nodes s5)(dk \<mapsto> d)\<rparr>;
             Some (if signal then emit endInsertRows s6 else s6)
           }
           else Some s2
         }
         else Some s1)"

definition ItemFromSong ::
  "Lib \<Rightarrow> GroupBy \<Rightarrow> bool \<Rightarrow> bool \<Rightarrow> bool \<Rightarrow> ptr \<Rightarrow> Song \<Rightarrow> int \<Rightarrow> CollectionModel
   \<Rightarrow> (ptr \<times> CollectionModel) option" where
  "ItemFromSong L gb sep signal create_divider par sg lvl s = do {
     (p, s1) \<leftarrow> InitItem L gb signal par lvl s;
     pit \<leftarrow> items s1 par;
     s2 \<leftarrow> update_item p (\<lambda>it. fill_item L s1 gb sep sg
              (if Some par \<noteq> root s1 \<and> key pit \<noteq> [] then it\<lparr>key := key pit @ ''-''\<rparr> else it)) s1;
     s3 \<leftarrow> FinishItem L gb signal create_divider par p s2;
     Some (p, s3)
   }"

text \<open>
  The loop of \<open>AddSongs\<close> over the three grouping levels, from level \<open>i\<close> on: it returns the
  container the song leaf goes under.
\<close>

fun find_containers ::
  "Lib \<Rightarrow> Song \<Rightarrow> nat list \<Rightarrow> ptr \<Rightarrow> QString \<Rightarrow> CollectionModel \<Rightarrow> (ptr \<times> CollectionModel) option" where
  "find_containers L sg [] container k s = Some (container, s)"
| "find_containers L sg (i # rest) container k s =
     (let gb = Grouping_at (group_by s) (int i)
      in if gb = GroupBy_None then Some (container, s)
         else (let k1 = (if k \<noteq> [] then k @ ''-'' else k)
               in if IsArtistGroupBy gb \<and> is_compilation L sg
                  then do {
                    cit \<leftarrow> items s container;
                    (c, s1) \<leftarrow> (case compilation_artist_node cit of
                                  None \<Rightarrow> CreateCompilationArtistNode L True container s
                                | Some c \<Rightarrow> Some (c, s));
                    cn \<leftarrow> items s1 c;
                    find_containers L sg rest c (key cn) s1
                  }
                  else (let k2 = k1 @ ContainerKey L gb (separate_albums_by_grouping s) sg
                        in case map_of (container_nodes s i) k2 of
                             Some c \<Rightarrow> find_containers L sg rest c k2 s
                           | None \<Rightarrow> do {
                               (c, s1) \<leftarrow> ItemFromSong L gb (separate_albums_by_grouping s) True (i = 0)
                                            container sg (int i) s;
                               find_containers L sg rest c k2
                                 (s1\<lparr>container_nodes := (container_nodes s1)
                                        (i := AList.update k2 c (container_nodes s1 i))\<rparr>)
                             })))"

definition AddSong :: "Lib \<Rightarrow> Song \<Rightarrow> CollectionModel \<Rightarrow> CollectionModel option" where
  "AddSong L sg s =
     (let s1 = s\<lparr>songs := (songs s)(song_id sg \<mapsto> sg)\<rparr>
      in if \<not> Matches L sg then Some s1
         else if song_nodes s1 (song_id sg) \<noteq> None then Some s1
         else do {
           r \<leftarrow> root s1;
           (container, s2) \<leftarrow> find_containers L sg [0, 1, 2] r [] s1;
           (leaf, s3) \<leftarrow> ItemFromSong L GroupBy_None (separate_albums_by_grouping s2) True False
                          container sg (- 1) s2;
           Some (s3\<lparr>song_nodes := (song_nodes s3)(song_id sg \<mapsto> leaf)\<rparr>)
         })"

fun AddSongs :: "Lib \<Rightarrow> Song list \<Rightarrow> CollectionModel \<Rightarrow> CollectionModel option" where
  "AddSongs L [] s = Some s"
| "AddSongs L (sg # rest) s = (case AddSong L sg s of None \<Rightarrow> None | Some s1 \<Rightarrow> AddSongs L rest s1)"

section \<open>Removing items\<close>

text \<open>
  Modelled from the spec: \<open>SimpleTreeItem::Delete\<close> and the destructor are not in the file.
  \<open>Delete(child_row)\<close> takes the child at that position out of the children, destroys it
  together with everything below it, and renumbers the children that followed it, so the
  position indices stay contiguous. The destructor's recursion is bounded by a fuel.
\<close>

fun free_tree :: "nat \<Rightarrow> ptr \<Rightarrow> (ptr \<rightharpoonup> CollectionItem) \<Rightarrow> (ptr \<rightharpoonup> CollectionItem) option"
  and free_trees :: "nat \<Rightarrow> ptr list \<Rightarrow> (ptr \<rightharpoonup> CollectionItem) \<Rightarrow> (ptr \<rightharpoonup> CollectionItem) option" where
  "free_tree 0 p h = None"
| "free_tree (Suc n) p h =
     (case h p of None \<Rightarrow> None | Some it \<Rightarrow> free_trees n (children it) (h(p := None)))"
| "free_trees n [] h = Some h"
| "free_trees n (c # cs) h =
     (case free_tree n c h of None \<Rightarrow> None | Some h1 \<Rightarrow> free_trees n cs h1)"

fun renumber :: "ptr list \<Rightarrow> int \<Rightarrow> (ptr \<rightharpoonup> CollectionItem) \<Rightarrow> (ptr \<rightharpoonup> CollectionItem) option" where
  "renumber [] i h = Some h"
| "renumber (c # cs) i h =
     (case h c of None \<Rightarrow> None | Some it \<Rightarrow> renumber cs (i + 1) (h(c \<mapsto> it\<lparr>row := i\<rparr>)))"

definition Delete :: "ptr \<Rightarrow> int \<Rightarrow> CollectionModel \<Rightarrow> CollectionModel option" where
  "Delete p child_row s = do {
     pit \<leftarrow> items s p;
     if child_row < 0 \<or> int (length (children pit)) \<le> child_row then None
     else do {
       let n = nat child_row;
       let remaining = take n (children pit) @ drop (Suc n) (children pit);
       h1 \<leftarrow> free_tree (next_item s) (children pit ! n)
               ((items s)(p \<mapsto> pit\<lparr>children := remaining\<rparr>));
       h2 \<leftarrow> renumber (drop n remaining) child_row h1;
       Some (s\<lparr>items := h2\<rparr>)
     }
   }"

text \<open>
  A \<open>QSet\<close> is a list without repetition; the model iterates it in insertion order (Qt
  leaves the order open).
\<close>

definition set_insert :: "'a \<Rightarrow> 'a list \<Rightarrow> 'a list" where
  "set_insert x xs = (if x \<in> set xs then xs else xs @ [x])"

definition refresh_song :: "Song \<Rightarrow> CollectionModel \<Rightarrow> CollectionModel" where
  "refresh_song sg s =
     (if songs s (song_id sg) \<noteq> None then s\<lparr>songs := (songs s)(song_id sg \<mapsto> sg)\<rparr> else s)"

text \<open>The first loop of \<open>RemoveSongs\<close>: delete the song nodes, collect their parents.\<close>

fun remove_song_nodes ::
  "Song list \<Rightarrow> ptr list \<Rightarrow> CollectionModel \<Rightarrow> (ptr list \<times> CollectionModel) option" where
  "remove_song_nodes [] parents s = Some (parents, s)"
| "remove_song_nodes (sg # rest) parents s =
     (let s1 = refresh_song sg s
      in case song_nodes s1 (song_id sg) of
           None \<Rightarrow> remove_song_nodes rest parents s1
         | Some node \<Rightarrow> do {
             nit \<leftarrow> items s1 node;
             par \<leftarrow> parent nit;
             idx \<leftarrow> ItemToIndex s1 par;
             s2 \<leftarrow> Delete par (row nit) (emit (beginRemoveRows idx (row nit) (row nit)) s1);
             remove_song_nodes rest
               (if Some par \<noteq> root s1 then set_insert par parents else parents)
               (emit endRemoveRows (s2\<lparr>song_nodes := (song_nodes s2)(song_id sg := None)\<rparr>))
           })"

text \<open>One pass of the inner loop of "Now delete empty parents" over the copy of \<open>parents\<close>.\<close>

fun prune_round ::
  "Lib \<Rightarrow> ptr list \<Rightarrow> ptr list \<Rightarrow> QString list \<Rightarrow> CollectionModel
   \<Rightarrow> (ptr list \<times> QString list \<times> CollectionModel) option" where
  "prune_round L [] parents dks s = Some (parents, dks, s)"
| "prune_round L (node # rest) parents dks s = do {
     nit \<leftarrow> items s node;
     if children nit \<noteq> [] then prune_round L rest (removeAll node parents) dks s
     else do {
       par \<leftarrow> parent nit;
       pit \<leftarrow> items s par;
       s1 \<leftarrow> (if compilation_artist_node pit = Some node
              then update_item par (\<lambda>i. i\<lparr>compilation_artist_node := None\<rparr>) s
              else if container_level nit < 0 \<or> 2 < container_level nit then None
              else if map_of (container_nodes s (nat (container_level nit))) (key nit) \<noteq> None
              then Some (s\<lparr>container_nodes := (container_nodes s)
                             (nat (container_level nit) :=
                                AList.delete (key nit) (container_nodes s (nat (container_level nit))))\<rparr>)
              else Some s);
       idx \<leftarrow> ItemToIndex s1 par;
       s2 \<leftarrow> Delete par (row nit) (emit (beginRemoveRows idx (row nit) (row nit)) s1);
       prune_round L rest
         (if Some par \<noteq> root s then set_insert par (removeAll node parents) else removeAll node parents)
         (if container_level nit = 0
          then set_insert (DividerKey L (Grouping_at (group_by s) 0) nit) dks else dks)
         (emit endRemoveRows s2)
     }
   }"

partial_function (option) prune_parents ::
  "Lib \<Rightarrow> ptr list \<Rightarrow> QString list \<Rightarrow> CollectionModel \<Rightarrow> (QString list \<times> CollectionModel) option" where
  "prune_parents L parents dks s =
     (if parents = [] then Some (dks, s)
      else Option.bind (prune_round L parents parents dks s)
             (\<lambda>(parents1, dks1, s1). prune_parents L parents1 dks1 s1))"

fun any_divider_key :: "Lib \<Rightarrow> GroupBy \<Rightarrow> QString \<Rightarrow> ptr list \<Rightarrow> CollectionModel \<Rightarrow> bool option" where
  "any_divider_key L gb dk [] s = Some False"
| "any_divider_key L gb dk (n # ns) s =
     (case items s n of
        None \<Rightarrow> None
      | Some it \<Rightarrow> if DividerKey L gb it = dk then Some True else any_divider_key L gb dk ns s)"

text \<open>\<open>QMap::values()\<close>: the values in ascending order of their keys.\<close>

definition QMap_values :: "(QString \<times> ptr) list \<Rightarrow> ptr list" where
  "QMap_values al = map snd (sort_key fst al)"

fun delete_empty_dividers :: "Lib \<Rightarrow> QString list \<Rightarrow> CollectionModel \<Rightarrow> CollectionModel option" where
  "delete_empty_dividers L [] s = Some s"
| "delete_empty_dividers L (dk # rest) s =
     (case divider_nodes s dk of
        None \<Rightarrow> delete_empty_dividers L rest s
      | Some d \<Rightarrow> do {
          used \<leftarrow> any_divider_key L (Grouping_at (group_by s) 0) dk (QMap_values (container_nodes s 0)) s;
          if used then delete_empty_dividers L rest s
          else do {
            dit \<leftarrow> items s d;
            r \<leftarrow> root s;
            idx \<leftarrow> ItemToIndex s r;
            s1 \<leftarrow> Delete r (row dit) (emit (beginRemoveRows idx (row dit) (row dit)) s);
            delete_empty_dividers L rest
              ((emit endRemoveRows s1)\<lparr>divider_nodes := (divider_nodes s1)(dk := None)\<rparr>)
          }
        })"

definition RemoveSongs :: "Lib \<Rightarrow> Song list \<Rightarrow> CollectionModel \<Rightarrow> CollectionModel option" where
  "RemoveSongs L sl s = do {
     (parents, s1) \<leftarrow> remove_song_nodes sl [] s;
     (dks, s2) \<leftarrow> prune_parents L parents [] s1;
     delete_empty_dividers L dks s2
   }"

section \<open>Updating songs\<close>

definition IsCollectionMetadataEqual :: "Song \<Rightarrow> Song \<Rightarrow> bool" where
  "IsCollectionMetadataEqual song1 song2 =
     (title song1 = title song2 \<and>
      album song1 = album song2 \<and>
      artist song1 = artist song2 \<and>
      albumartist song1 = albumartist song2 \<and>
      track song1 = track song2 \<and>
      disc song1 = disc song2 \<and>
      year song1 = year song2 \<and>
      originalyear song1 = originalyear song2 \<and>
      genre song1 = genre song2 \<and>
      compilation song1 = compilation song2 \<and>
      composer song1 = composer song2 \<and>
      performer song1 = performer song2 \<and>
      grouping song1 = grouping song2 \<and>
      bitrate song1 = bitrate song2 \<and>
      samplerate song1 = samplerate song2 \<and>
      bitdepth song1 = bitdepth song2)"

fun UpdateSongs :: "Lib \<Rightarrow> Song list \<Rightarrow> CollectionModel \<Rightarrow> CollectionModel option" where
  "UpdateSongs L [] s = Some s"
| "UpdateSongs L (sg # rest) s =
     (let s1 = refresh_song sg s
      in case song_nodes s1 (song_id sg) of
           None \<Rightarrow> UpdateSongs L rest (qLog_Error ''Song does not exist in model'' s1)
         | Some p \<Rightarrow> do {
             it \<leftarrow> items s1 p;
             let s2 = s1\<lparr>items := (items s1)(p \<mapsto> it\<lparr>metadata := sg\<rparr>)\<rparr>;
             if \<not> IsCollectionMetadataEqual sg (metadata it)
             then do {
               idx \<leftarrow> ItemToIndex s2 p;
               if idx = InvalidIndex then Some s2
               else UpdateSongs L rest (emit (dataChanged idx idx) s2)
             }
             else UpdateSongs L rest s2
           })"

section \<open>The update scheduler\<close>

function ScheduleUpdate_loop ::
  "UpdateType \<Rightarrow> Song list \<Rightarrow> nat \<Rightarrow> CollectionModelUpdate list \<Rightarrow> CollectionModelUpdate list" where
  "ScheduleUpdate_loop t sl i q =
     (if i < length sl
      then ScheduleUpdate_loop t sl (i + 400)
             (q @ [CollectionModelUpdate t (take (min (length sl - i) 400) (drop i sl))])
      else q)"
  by pat_completeness auto
termination
  by (relation "measure (\<lambda>(t, sl, i, q). length sl - i)") auto

declare ScheduleUpdate_loop.simps [simp del]

definition ScheduleUpdate :: "UpdateType \<Rightarrow> Song list \<Rightarrow> CollectionModel \<Rightarrow> CollectionModel" where
  "ScheduleUpdate t sl s =
     s\<lparr>updates := ScheduleUpdate_loop t sl 0 (updates s), timer_update_active := True\<rparr>"

definition SongsAdded :: "Song list \<Rightarrow> CollectionModel \<Rightarrow> CollectionModel" where
  "SongsAdded sl s = ScheduleUpdate Update_Add sl s"

definition SongsRemoved :: "Song list \<Rightarrow> CollectionModel \<Rightarrow> CollectionModel" where
  "SongsRemoved sl s = ScheduleUpdate Update_Remove sl s"

definition SongsChanged :: "Song list \<Rightarrow> CollectionModel \<Rightarrow> CollectionModel" where
  "SongsChanged sl s = ScheduleUpdate Update_ReAddOrUpdate sl s"

definition SongsUpdated :: "Song list \<Rightarrow> CollectionModel \<Rightarrow> CollectionModel" where
  "SongsUpdated sl s = ScheduleUpdate Update_Update sl s"

text \<open>
  The loop of \<open>ReAddOrUpdate\<close> sorts the songs into those to add, to remove and to update.
  (The error that \<open>ContainerKey\<close> logs for \<open>GroupBy::None\<close> is not recorded.)
\<close>

fun ReAddOrUpdate_loop ::
  "Lib \<Rightarrow> Song list \<Rightarrow> Song list \<Rightarrow> Song list \<Rightarrow> Song list \<Rightarrow> CollectionModel
   \<Rightarrow> (Song list \<times> Song list \<times> Song list \<times> CollectionModel) option" where
  "ReAddOrUpdate_loop L [] songs_added songs_removed songs_updated s =
     Some (songs_added, songs_removed, songs_updated, s)"
| "ReAddOrUpdate_loop L (sg # rest) songs_added songs_removed songs_updated s =
     (case song_nodes s (song_id sg) of
        None \<Rightarrow> ReAddOrUpdate_loop L rest songs_added songs_removed songs_updated
                  (qLog_Error ''Song does not exist in model'' s)
      | Some p \<Rightarrow> do {
          it \<leftarrow> items s p;
          if (\<exists>i \<in> {0, 1, 2}.
                ContainerKey L (Grouping_at (group_by s) i) (separate_albums_by_grouping s) sg \<noteq>
                ContainerKey L (Grouping_at (group_by s) i) (separate_albums_by_grouping s) (metadata it))
          then ReAddOrUpdate_loop L rest (songs_added @ [sg]) (songs_removed @ [metadata it]) songs_updated s
          else ReAddOrUpdate_loop L rest songs_added songs_removed (songs_updated @ [sg]) s
        })"

definition ReAddOrUpdate :: "Lib \<Rightarrow> Song list \<Rightarrow> CollectionModel \<Rightarrow> CollectionModel option" where
  "ReAddOrUpdate L sl s = do {
     (songs_added, songs_removed, songs_updated, s1) \<leftarrow> ReAddOrUpdate_loop L sl [] [] [] s;
     Some (SongsAdded songs_added (SongsRemoved songs_removed (SongsUpdated songs_updated s1)))
   }"

definition ProcessUpdate :: "Lib \<Rightarrow> CollectionModel \<Rightarrow> CollectionModel option" where
  "ProcessUpdate L s =
     (case updates s of
        [] \<Rightarrow> Some (s\<lparr>timer_update_active := False\<rparr>)
      | u # rest \<Rightarrow>
          (let s1 = s\<lparr>updates := rest,
                      timer_update_active := (if rest = [] then False else timer_update_active s)\<rparr>
           in case u of
                CollectionModelUpdate Update_Add sl \<Rightarrow> AddSongs L sl s1
              | CollectionModelUpdate Update_Remove sl \<Rightarrow> RemoveSongs L sl s1
              | CollectionModelUpdate Update_ReAddOrUpdate sl \<Rightarrow> ReAddOrUpdate L sl s1
              | CollectionModelUpdate Update_Update sl \<Rightarrow> UpdateSongs L sl s1))"

section \<open>Queries\<close>

datatype QVariant = QVariant_Invalid | QVariant_Bool bool | QVariant_Int int | QVariant_String QString

text \<open>\<open>QVariant::toInt\<close> and \<open>QVariant::toString\<close> on the variants of the model.\<close>

fun QVariant_toInt :: "QVariant \<Rightarrow> int" where
  "QVariant_toInt (QVariant_Int i) = i"
| "QVariant_toInt (QVariant_Bool b) = (if b then 1 else 0)"
| "QVariant_toInt (QVariant_String str) = toInt str"
| "QVariant_toInt QVariant_Invalid = 0"

fun QVariant_toString :: "QVariant \<Rightarrow> QString" where
  "QVariant_toString (QVariant_String str) = str"
| "QVariant_toString (QVariant_Int i) = QString_number i"
| "QVariant_toString (QVariant_Bool b) = (if b then ''true'' else ''false'')"
| "QVariant_toString QVariant_Invalid = []"

text \<open>
  Modelled from the spec: \<open>SimpleTreeItem::SortText()\<close> is not in the file; it answers the
  item's precomputed sort text, a string.
\<close>

definition item_SortText :: "CollectionItem \<Rightarrow> QString" where
  "item_SortText it = sort_text it"

text \<open>\<open>data(item, Role_SortText)\<close>: the \<open>QString\<close> of \<open>item->SortText()\<close> wrapped into a variant.\<close>

definition data_Role_SortText :: "CollectionItem \<Rightarrow> QVariant" where
  "data_Role_SortText it = QVariant_String (item_SortText it)"

definition CompareItems :: "CollectionItem \<Rightarrow> CollectionItem \<Rightarrow> bool" where
  "CompareItems a b =
     (let left = data_Role_SortText a; right = data_Role_SortText b
      in case left of
           QVariant_Int i \<Rightarrow> QVariant_toInt left < QVariant_toInt right
         | _ \<Rightarrow> QVariant_toString left < QVariant_toString right)"

text \<open>
  \<open>data(item, Role_Editable)\<close>, as a truth value. \<open>std::any_of\<close> stops at the first child
  that is not editable. The recursion into the children is bounded by a fuel: \<open>None\<close> is a
  dereferenced pointer that is not live, or the fuel used up.
\<close>

fun data_Role_Editable :: "nat \<Rightarrow> Lib \<Rightarrow> CollectionModel \<Rightarrow> ptr \<Rightarrow> bool option"
  and any_not_editable :: "nat \<Rightarrow> Lib \<Rightarrow> CollectionModel \<Rightarrow> ptr list \<Rightarrow> bool option" where
  "data_Role_Editable 0 L s p =
     (case items s p of
        None \<Rightarrow> None
      | Some it \<Rightarrow>
          if type it = Type_Container then (if children it = [] then Some False else None)
          else if type it = Type_Song then Some (IsEditable L (metadata it))
          else Some False)"
| "data_Role_Editable (Suc n) L s p =
     (case items s p of
        None \<Rightarrow> None
      | Some it \<Rightarrow>
          if type it = Type_Container
          then (if children it = [] then Some False
                else (case any_not_editable n L s (children it) of
                        None \<Rightarrow> None
                      | Some b \<Rightarrow> if b then Some False else Some True))
          else if type it = Type_Song then Some (IsEditable L (metadata it))
          else Some False)"
| "any_not_editable n L s [] = Some False"
| "any_not_editable n L s (c # cs) =
     (case data_Role_Editable n L s c of
        None \<Rightarrow> None
      | Some b \<Rightarrow> if \<not> b then Some True else any_not_editable n L s cs)"

text \<open>
  \<open>std::sort\<close> of the children with \<open>CompareItems\<close>, as an insertion sort that keeps the
  order of children that compare equal (\<open>std::sort\<close> leaves their order open).
\<close>

fun insert_item :: "(ptr \<times> CollectionItem) \<Rightarrow> (ptr \<times> CollectionItem) list \<Rightarrow> (ptr \<times> CollectionItem) list" where
  "insert_item x [] = [x]"
| "insert_item x (y # ys) =
     (if CompareItems (snd x) (snd y) then x # y # ys else y # insert_item x ys)"

definition sort_items :: "(ptr \<times> CollectionItem) list \<Rightarrow> (ptr \<times> CollectionItem) list" where
  "sort_items xs = foldr insert_item xs []"

fun deref_all :: "CollectionModel \<Rightarrow> ptr list \<Rightarrow> (ptr \<times> CollectionItem) list option" where
  "deref_all s [] = Some []"
| "deref_all s (p # ps) =
     (case items s p of
        None \<Rightarrow> None
      | Some it \<Rightarrow> (case deref_all s ps of None \<Rightarrow> None | Some r \<Rightarrow> Some ((p, it) # r)))"

definition sorted_children :: "CollectionModel \<Rightarrow> ptr list \<Rightarrow> ptr list option" where
  "sorted_children s cs = map_option (\<lambda>xs. map fst (sort_items xs)) (deref_all s cs)"

text \<open>
  \<open>GetChildSongs(item, urls, songs, song_ids)\<close>: the three out-parameters are threaded as a
  triple. The recursion into the children of a container is bounded by a fuel.
\<close>

type_synonym child_songs = "QString list \<times> Song list \<times> int set"

fun GetChildSongs :: "nat \<Rightarrow> CollectionModel \<Rightarrow> ptr \<Rightarrow> child_songs \<Rightarrow> child_songs option"
  and GetChildSongs_each :: "nat \<Rightarrow> CollectionModel \<Rightarrow> ptr list \<Rightarrow> child_songs \<Rightarrow> child_songs option" where
  "GetChildSongs 0 s p acc =
     (case items s p of
        None \<Rightarrow> None
      | Some it \<Rightarrow>
          (case type it of
             Type_Container \<Rightarrow> None
           | Type_Song \<Rightarrow>
               (case acc of (urls, sl, song_ids) \<Rightarrow>
                  Some (urls @ [url (metadata it)],
                        if song_id (metadata it) \<in> song_ids then sl else sl @ [metadata it],
                        insert (song_id (metadata it)) song_ids))
           | _ \<Rightarrow> Some acc))"
| "GetChildSongs (Suc n) s p acc =
     (case items s p of
        None \<Rightarrow> None
      | Some it \<Rightarrow>
          (case type it of
             Type_Container \<Rightarrow>
               (case sorted_children s (children it) of
                  None \<Rightarrow> None
                | Some cs \<Rightarrow> GetChildSongs_each n s cs acc)
           | Type_Song \<Rightarrow>
               (case acc of (urls, sl, song_ids) \<Rightarrow>
                  Some (urls @ [url (metadata it)],
                        if song_id (metadata it) \<in> song_ids then sl else sl @ [metadata it],
                        insert (song_id (metadata it)) song_ids))
           | _ \<Rightarrow> Some acc))"
| "GetChildSongs_each n s [] acc = Some acc"
| "GetChildSongs_each n s (c # cs) acc =
     (case GetChildSongs n s c acc of None \<Rightarrow> None | Some acc1 \<Rightarrow> GetChildSongs_each n s cs acc1)"

text \<open>
  Modelled from the spec: \<open>SimpleTreeModel::IndexToItem\<close> is not in the file; the invalid
  index stands for the root.
\<close>

definition IndexToItem :: "CollectionModel \<Rightarrow> QModelIndex \<Rightarrow> ptr option" where
  "IndexToItem s idx = (case idx of InvalidIndex \<Rightarrow> root s | Index r p \<Rightarrow> Some p)"

text \<open>\<open>GetChildSongs(const QModelIndexList &indexes)\<close>: one set of song ids for the whole call.\<close>

fun GetChildSongs_loop :: "nat \<Rightarrow> CollectionModel \<Rightarrow> QModelIndex list \<Rightarrow> child_songs \<Rightarrow> child_songs option" where
  "GetChildSongs_loop n s [] acc = Some acc"
| "GetChildSongs_loop n s (idx # rest) acc =
     (case IndexToItem s idx of
        None \<Rightarrow> None
      | Some p \<Rightarrow>
          (case GetChildSongs n s p acc of
             None \<Rightarrow> None
           | Some acc1 \<Rightarrow> GetChildSongs_loop n s rest acc1))"

definition GetChildSongs_indexes :: "nat \<Rightarrow> CollectionModel \<Rightarrow> QModelIndex list \<Rightarrow> Song list option" where
  "GetChildSongs_indexes n s indexes =
     map_option (\<lambda>(urls, sl, song_ids). sl) (GetChildSongs_loop n s indexes ([], [], {}))"

definition GetChildSongs_index :: "nat \<Rightarrow> CollectionModel \<Rightarrow> QModelIndex \<Rightarrow> Song list option" where
  "GetChildSongs_index n s idx = GetChildSongs_indexes n s [idx]"

section \<open>Resetting the model\<close>

definition Clear :: "CollectionModel \<Rightarrow> CollectionModel option" where
  "Clear s = do {
     h \<leftarrow> (case root s of None \<Rightarrow> Some (items s) | Some r \<Rightarrow> free_tree (next_item s) r (items s));
     Some (s\<lparr>items := h, root := None, song_nodes := Map.empty,
             container_nodes := (container_nodes s)(0 := [], 1 := [], 2 := []),
             divider_nodes := Map.empty\<rparr>)
   }"

definition BeginReset :: "Lib \<Rightarrow> CollectionModel \<Rightarrow> CollectionModel option" where
  "BeginReset L s = do {
     s1 \<leftarrow> Clear (emit beginResetModel s);
     let (r, s2) = new_root_item L s1;
     Some (s2\<lparr>root := Some r\<rparr>)
   }"

definition EndReset :: "CollectionModel \<Rightarrow> CollectionModel" where
  "EndReset s = emit endResetModel s"

text \<open>
  The model as its constructor leaves it (a root, empty tables, the default grouping),
  and the setters of the configuration; the reset they schedule is \<open>BeginReset\<close>.
\<close>

definition CollectionModel_new :: "Lib \<Rightarrow> CollectionModel" where
  "CollectionModel_new L =
     \<lparr>items = [0 \<mapsto> blank_item L Type_Root None (- 1)], next_item = 1, root = Some 0,
      songs = Map.empty, song_nodes = Map.empty, container_nodes = (\<lambda>i. []),
      divider_nodes = Map.empty,
      group_by = \<lparr>first = GroupBy_AlbumArtist, second = GroupBy_AlbumDisc, third = GroupBy_None\<rparr>,
      separate_albums_by_grouping = False, sort_skips_articles = True, show_dividers = True,
      updates = [], timer_update_active = False, signals = [], error_log = []\<rparr>"

definition configure :: "Grouping \<Rightarrow> bool \<Rightarrow> bool \<Rightarrow> bool \<Rightarrow> CollectionModel \<Rightarrow> CollectionModel" where
  "configure g sep skip dividers s =
     s\<lparr>group_by := g, separate_albums_by_grouping := sep, sort_skips_articles := skip,
       show_dividers := dividers\<rparr>"

text \<open>
  The members no operation of the tree index writes: the configuration and the scheduler.
\<close>

definition fixed ::
  "CollectionModel \<Rightarrow> Grouping \<times> bool \<times> bool \<times> bool \<times> CollectionModelUpdate list \<times> bool" where
  "fixed s = (group_by s, separate_albums_by_grouping s, sort_skips_articles s, show_dividers s,
              updates s, timer_update_active s)"

section \<open>A library instance for the examples\<close>

text \<open>
  The examples run the model on ASCII data with this instance of the collaborators: every
  song passes the filter, the translation is the identity, no character has a
  decomposition, and a song is editable when it has a location.
\<close>

definition ascii_lower :: "char \<Rightarrow> char" where
  "ascii_lower c = (let n = (of_char c :: nat) in if 65 \<le> n \<and> n \<le> 90 then char_of (n + 32) else c)"

definition ascii_upper :: "char \<Rightarrow> char" where
  "ascii_upper c = (let n = (of_char c :: nat) in if 97 \<le> n \<and> n \<le> 122 then char_of (n - 32) else c)"

definition example_Song :: Song where
  "example_Song =
     \<lparr>song_id = - 1, title = [], artist = [], albumartist = [], album = [], album_id = [],
      track = - 1, disc = - 1, year = - 1, originalyear = - 1, genre = [], compilation = False,
      composer = [], performer = [], grouping = [], filetype = 0, samplerate = - 1,
      bitdepth = - 1, bitrate = - 1, url = [], rating = - 1, playcount = 0\<rparr>"

definition example_Lib :: Lib where
  "example_Lib =
     \<lparr>Matches = (\<lambda>sg. True),
      effective_albumartist = (\<lambda>sg. if albumartist sg = [] then artist sg else albumartist sg),
      effective_originalyear = (\<lambda>sg. if originalyear sg \<le> 0 then year sg else originalyear sg),
      is_compilation = compilation,
      IsEditable = (\<lambda>sg. url sg \<noteq> []),
      TextForFiletype = (\<lambda>sg. ''Unknown''),
      TitleWithCompilationArtist = title,
      AlbumContainsDisc = (\<lambda>a. False),
      kArticles = [''the '', ''a '', ''an ''],
      tr = (\<lambda>t. t),
      toLower = map ascii_lower,
      remove_non_word = filter (\<lambda>c. isLetter c \<or> isDigit c \<or> c = CHR ''_'' \<or> c = CHR '' ''),
      decomposition = (\<lambda>c. []),
      toUpper = map ascii_upper,
      number_G5 = (\<lambda>n. QString_number (n div 1000)),
      Song_default = example_Song\<rparr>"

text \<open>
  The comparison as the specification words it: numeric when both sort texts parse fully
  as integers, by strings otherwise.
\<close>

definition CompareItems_spec :: "CollectionItem \<Rightarrow> CollectionItem \<Rightarrow> bool" where
  "CompareItems_spec a b =
     (case (parse_int (sort_text a), parse_int (sort_text b)) of
        (Some i, Some j) \<Rightarrow> i < j
      | _ \<Rightarrow> sort_text a < sort_text b)"

text \<open>The container that \<open>ItemFromSong\<close> fills for an album title under \<open>GroupBy::AlbumDisc\<close>.\<close>

definition album_item :: "QString \<Rightarrow> CollectionItem" where
  "album_item a =
     fill_item example_Lib (CollectionModel_new example_Lib) GroupBy_AlbumDisc False
       (example_Song\<lparr>album := a\<rparr>) (blank_item example_Lib Type_Container (Some 0) 0)"

text \<open>
  A model whose root has one child, a container without children: the state between the
  creation of a container and the insertion of its first child.
\<close>

definition empty_container_model :: CollectionModel where
  "empty_container_model =
     (CollectionModel_new example_Lib)
       \<lparr>items := [0 \<mapsto> (blank_item example_Lib Type_Root None (- 1))\<lparr>children := [1]\<rparr>,
                  1 \<mapsto> (blank_item example_Lib Type_Container (Some 0) 0)\<lparr>container_level := 0\<rparr>],
        next_item := 2\<rparr>"

text \<open>A model whose root has one child, the leaf of a song.\<close>

definition one_song_model :: "Song \<Rightarrow> CollectionModel" where
  "one_song_model sg =
     (CollectionModel_new example_Lib)
       \<lparr>items := [0 \<mapsto> (blank_item example_Lib Type_Root None (- 1))\<lparr>children := [1]\<rparr>,
                  1 \<mapsto> (blank_item example_Lib Type_Song (Some 0) 0)
                         \<lparr>metadata := sg, key := title sg, display_text := title sg,
                          sort_text := SortTextForSong sg\<rparr>],
        next_item := 2,
        songs := [song_id sg \<mapsto> sg],
        song_nodes := [song_id sg \<mapsto> 1]\<rparr>"

text \<open>The shape of an item: every field except the record it wraps.\<close>

definition item_shape ::
  "CollectionItem \<Rightarrow> Type \<times> ptr option \<times> int \<times> ptr list \<times> QString \<times> QString \<times> QString \<times> int \<times> ptr option" where
  "item_shape it =
     (type it, parent it, row it, children it, key it, display_text it, sort_text it,
      container_level it, compilation_artist_node it)"

text \<open>The shape of the tree: the shapes of the items and the lookup tables.\<close>

definition tree_shape where
  "tree_shape s =
     (\<lambda>p. map_option item_shape (items s p), next_item s, root s, song_nodes s,
      container_nodes s, divider_nodes s)"


text \<open>A tracked song, for the examples.\<close>

definition tracked_Song :: Song where
  "tracked_Song = example_Song\<lparr>song_id := 7, title := ''Air'', url := ''file:///air.flac''\<rparr>"

text \<open>
  The members that the creation of containers and leaves does not write: the record
  table, the index of the song leaves, the error log and the root pointer.
\<close>

definition records ::
  "CollectionModel \<Rightarrow> (int \<rightharpoonup> Song) \<times> (int \<rightharpoonup> ptr) \<times> QString list \<times> ptr option" where
  "records s = (songs s, song_nodes s, error_log s, root s)"

text \<open>The upserts of \<open>AddSongs\<close> into the record table, in the order of the batch.\<close>

definition upsert_all :: "(int \<rightharpoonup> Song) \<Rightarrow> Song list \<Rightarrow> (int \<rightharpoonup> Song)" where
  "upsert_all m sl = foldl (\<lambda>m sg. m(song_id sg \<mapsto> sg)) m sl"

text \<open>The model after a reset under a grouping, with the flags of the constructor.\<close>

definition reset_model :: "Lib \<Rightarrow> Grouping \<Rightarrow> bool \<Rightarrow> CollectionModel" where
  "reset_model L g dividers =
     (CollectionModel_new L)\<lparr>group_by := g, show_dividers := dividers\<rparr>"

definition no_grouping :: Grouping where
  "no_grouping = \<lparr>first = GroupBy_None, second = GroupBy_None, third = GroupBy_None\<rparr>"

text \<open>
  \<open>same_except_record k a b\<close>: the model \<open>b\<close> is the model \<open>a\<close> in every member except the
  stored record of the song \<open>k\<close> and the error log.
\<close>

definition same_except_record :: "int \<Rightarrow> CollectionModel \<Rightarrow> CollectionModel \<Rightarrow> bool" where
  "same_except_record k a b =
     (b = a\<lparr>songs := songs b, error_log := error_log b\<rparr> \<and>
      (\<forall>i. i = k \<or> songs b i = songs a i))"

text \<open>The same for the result of the first loop of \<open>RemoveSongs\<close>: equal sets of parents too.\<close>

definition removal_related ::
  "int \<Rightarrow> ptr list \<times> CollectionModel \<Rightarrow> ptr list \<times> CollectionModel \<Rightarrow> bool" where
  "removal_related k a b = (fst b = fst a \<and> same_except_record k (snd a) (snd b))"

text \<open>A model with another record table and another error log.\<close>

definition put_records :: "(int \<rightharpoonup> Song) \<Rightarrow> QString list \<Rightarrow> CollectionModel \<Rightarrow> CollectionModel" where
  "put_records m l s = s\<lparr>songs := m, error_log := l\<rparr>"

definition untracked_Song :: Song where
  "untracked_Song = example_Song\<lparr>song_id := 9, title := ''Nine''\<rparr>"

text \<open>The example of a library grouped by year only, and a song of 1994.\<close>

definition year_grouping :: Grouping where
  "year_grouping = \<lparr>first = GroupBy_Year, second = GroupBy_None, third = GroupBy_None\<rparr>"

definition Song_of_1994 :: Song where
  "Song_of_1994 = example_Song\<lparr>song_id := 7, title := ''Air'', year := 1994, url := ''file:///air.flac''\<rparr>"

text \<open>The model after \<open>AddSongs\<close> of the song of 1994 to the empty tree grouped by year.\<close>

definition year_model_added :: CollectionModel where
  "year_model_added =
     (reset_model example_Lib year_grouping True)
       \<lparr>songs := [7 \<mapsto> Song_of_1994],
        divider_nodes := [''1990'' \<mapsto> 2],
        container_nodes := (\<lambda>i. [])(0 := [(''1994'', 1)]),
        next_item := 4,
        items :=
          [0 \<mapsto> (blank_item example_Lib Type_Root None (- 1))\<lparr>children := [1, 2]\<rparr>,
           2 \<mapsto> (blank_item example_Lib Type_Divider (Some 0) 1)
                   \<lparr>key := ''1990'', display_text := ''1990'', sort_text := ''1990  ''\<rparr>,
           1 \<mapsto> (blank_item example_Lib Type_Container (Some 0) 0)
                   \<lparr>children := [3], key := ''1994'', display_text := ''1994'',
                    sort_text := ''1990 1994 '', metadata := example_Song\<lparr>year := 1994\<rparr>,
                    container_level := 0\<rparr>,
           3 \<mapsto> (blank_item example_Lib Type_Song (Some 1) 0)
                   \<lparr>key := ''1994-Air'', display_text := ''Air'',
                    sort_text := ''000000file:///air.flac'', metadata := Song_of_1994\<rparr>],
        signals :=
          [beginInsertRows InvalidIndex 0 0, endInsertRows,
           beginInsertRows InvalidIndex 1 1, endInsertRows,
           beginInsertRows (Index 0 1) 0 0, endInsertRows],
        song_nodes := [7 \<mapsto> 3]\<rparr>"

text \<open>What is left of the tree: the kinds of the live items and the table of dividers.\<close>

definition remaining_nodes :: "CollectionModel \<Rightarrow> (ptr \<times> Type) list \<times> ptr list \<times> ptr option" where
  "remaining_nodes s =
     ([(p, type it). p \<leftarrow> [0 ..< next_item s], it \<leftarrow> (case items s p of None \<Rightarrow> [] | Some i \<Rightarrow> [i])],
      (case root s of None \<Rightarrow> [] | Some r \<Rightarrow> (case items s r of None \<Rightarrow> [] | Some i \<Rightarrow> children i)),
      divider_nodes s ''1990'')"

text \<open>
  The example of two songs whose path-qualified album keys coincide: artist "a-b" with
  album "c", and artist "a" with album "b-c", grouped by artist and album.
\<close>

definition artist_album_grouping :: Grouping where
  "artist_album_grouping = \<lparr>first = GroupBy_Artist, second = GroupBy_Album, third = GroupBy_None\<rparr>"

definition Song_ab_c :: Song where
  "Song_ab_c = example_Song\<lparr>song_id := 1, title := ''x'', artist := ''a-b'', album := ''c'', url := ''u1''\<rparr>"

definition Song_a_bc :: Song where
  "Song_a_bc = example_Song\<lparr>song_id := 2, title := ''y'', artist := ''a'', album := ''b-c'', url := ''u2''\<rparr>"

text \<open>
  Two songs with the same disc and track numbers and the same location, and the model
  after \<open>AddSongs\<close> of both to the empty tree without grouping: two leaves under the root.
\<close>

definition Song_x1 :: Song where
  "Song_x1 = example_Song\<lparr>song_id := 1, title := ''p'', disc := 1, track := 1, url := ''x''\<rparr>"

definition Song_x2 :: Song where
  "Song_x2 = example_Song\<lparr>song_id := 2, title := ''q'', disc := 1, track := 1, url := ''x''\<rparr>"

definition two_song_model :: CollectionModel where
  "two_song_model =
     (reset_model example_Lib no_grouping False)
       \<lparr>songs := [1 \<mapsto> Song_x1, 2 \<mapsto> Song_x2],
        next_item := 3,
        items :=
          [1 \<mapsto> (blank_item example_Lib Type_Song (Some 0) 0)
                   \<lparr>key := ''p'', display_text := ''p'', sort_text := ''001001x'',
                    metadata := Song_x1\<rparr>,
           0 \<mapsto> (blank_item example_Lib Type_Root None (- 1))\<lparr>children := [1, 2]\<rparr>,
           2 \<mapsto> (blank_item example_Lib Type_Song (Some 0) 1)
                   \<lparr>key := ''q'', display_text := ''q'', sort_text := ''001001x'',
                    metadata := Song_x2\<rparr>],
        signals :=
          [beginInsertRows InvalidIndex 0 0, endInsertRows,
           beginInsertRows InvalidIndex 1 1, endInsertRows],
        song_nodes := [1 \<mapsto> 1, 2 \<mapsto> 2]\<rparr>"

text \<open>The container that \<open>ItemFromSong\<close> fills for an artist under \<open>GroupBy::Artist\<close>.\<close>

definition artist_item :: "QString \<Rightarrow> CollectionItem" where
  "artist_item a =
     fill_item example_Lib (CollectionModel_new example_Lib) GroupBy_Artist False
       (example_Song\<lparr>artist := a\<rparr>) (blank_item example_Lib Type_Container (Some 0) 0)"

text \<open>The location of the record and the sort text of each of the items at some addresses.\<close>

definition locations_and_sort_texts ::
  "ptr list \<Rightarrow> CollectionModel \<Rightarrow> (QString \<times> QString) option list" where
  "locations_and_sort_texts ps s =
     map (\<lambda>p. map_option (\<lambda>it. (url (metadata it), sort_text it)) (items s p)) ps"




text \<open>
  The invariant of the tree that \<open>AddSongs\<close> builds. An item that can hold children is the
  root or a container. \<open>node_ok\<close>: the children of an item are live and point back to it;
  a container is at a level from 0 to 2, one below its parent, and listed among the
  children of its parent, which is the root or a container; a song leaf is listed among
  the children of its parent, the root or a container; the Various Artists link of an item
  leads to a container one level below it; the only root item is the root of the model.
\<close>

definition holds_children :: "CollectionItem \<Rightarrow> bool" where
  "holds_children it = (type it = Type_Container \<or> type it = Type_Root)"

definition node_ok :: "CollectionModel \<Rightarrow> ptr \<Rightarrow> CollectionItem \<Rightarrow> bool" where
  "node_ok s p it =
     ((\<forall>c \<in> set (children it). \<exists>cit. items s c = Some cit \<and> parent cit = Some p) \<and>
      (type it = Type_Container \<longrightarrow> 0 \<le> container_level it \<and> container_level it \<le> 2) \<and>
      (type it = Type_Container \<or> type it = Type_Song \<longrightarrow>
         (\<exists>par pit. parent it = Some par \<and> items s par = Some pit \<and> p \<in> set (children pit) \<and>
            holds_children pit \<and>
            (type it = Type_Container \<longrightarrow> container_level pit = container_level it - 1))) \<and>
      (\<forall>c. compilation_artist_node it = Some c \<longrightarrow>
         (\<exists>cit. items s c = Some cit \<and> type cit = Type_Container \<and>
            container_level cit = container_level it + 1)) \<and>
      (type it = Type_Root \<longrightarrow> root s = Some p \<and> container_level it = - 1))"

definition tree_ok :: "CollectionModel \<Rightarrow> bool" where
  "tree_ok s =
     ((\<exists>r rit. root s = Some r \<and> items s r = Some rit \<and> type rit = Type_Root) \<and>
      (\<forall>p it. items s p = Some it \<longrightarrow> p < next_item s \<and> node_ok s p it))"

text \<open>The per-level key tables lead to containers of their level.\<close>

definition tables_ok :: "CollectionModel \<Rightarrow> bool" where
  "tables_ok s =
     (\<forall>i k c. i < 3 \<and> map_of (container_nodes s i) k = Some c \<longrightarrow>
        (\<exists>it. items s c = Some it \<and> type it = Type_Container \<and> container_level it = int i))"

text \<open>The index of the song leaves and the song leaves of the store are the same.\<close>

definition songs_ok :: "CollectionModel \<Rightarrow> bool" where
  "songs_ok s =
     ((\<forall>k p. song_nodes s k = Some p \<longrightarrow>
         (\<exists>it. items s p = Some it \<and> type it = Type_Song \<and> song_id (metadata it) = k)) \<and>
      (\<forall>p it. items s p = Some it \<and> type it = Type_Song \<longrightarrow>
         song_nodes s (song_id (metadata it)) = Some p))"

text \<open>
  \<open>added par ty lvl link s s'\<close>: the model \<open>s'\<close> is \<open>s\<close> with one new item of kind \<open>ty\<close> and
  level \<open>lvl\<close> at the next address, appended to the children of \<open>par\<close> (and made its
  Various Artists node when \<open>link\<close> holds); tables, root and every other item are as before.
\<close>

definition added :: "ptr \<Rightarrow> Type \<Rightarrow> int \<Rightarrow> bool \<Rightarrow> CollectionModel \<Rightarrow> CollectionModel \<Rightarrow> bool" where
  "added par ty lvl link s s' =
     ((\<exists>pit pit' nit.
         items s par = Some pit \<and>
         items s' = (items s)(par \<mapsto> pit', next_item s \<mapsto> nit) \<and>
         type pit' = type pit \<and> parent pit' = parent pit \<and>
         children pit' = children pit @ [next_item s] \<and>
         container_level pit' = container_level pit \<and>
         compilation_artist_node pit' =
           (if link then Some (next_item s) else compilation_artist_node pit) \<and>
         metadata pit' = metadata pit \<and>
         type nit = ty \<and> parent nit = Some par \<and> children nit = [] \<and>
         container_level nit = lvl \<and> compilation_artist_node nit = None) \<and>
      next_item s' = Suc (next_item s) \<and> root s' = root s \<and>
      song_nodes s' = song_nodes s \<and> container_nodes s' = container_nodes s \<and>
      songs s' = songs s)"

text \<open>
  The identifiers of the song leaves under an item, to a depth: what \<open>GetChildSongs\<close>
  collects. \<open>depth_ok\<close>: the items under an item are live and no deeper than the depth.
\<close>

fun leaf_ids :: "nat \<Rightarrow> CollectionModel \<Rightarrow> ptr \<Rightarrow> int set" where
  "leaf_ids 0 s p =
     (case items s p of
        None \<Rightarrow> {}
      | Some it \<Rightarrow> if type it = Type_Song then {song_id (metadata it)} else {})"
| "leaf_ids (Suc n) s p =
     (case items s p of
        None \<Rightarrow> {}
      | Some it \<Rightarrow>
          if type it = Type_Song then {song_id (metadata it)}
          else if type it = Type_Container then (\<Union>c \<in> set (children it). leaf_ids n s c)
          else {})"

fun depth_ok :: "nat \<Rightarrow> CollectionModel \<Rightarrow> ptr \<Rightarrow> bool" where
  "depth_ok 0 s p = (case items s p of None \<Rightarrow> False | Some it \<Rightarrow> type it \<noteq> Type_Container)"
| "depth_ok (Suc n) s p =
     (case items s p of
        None \<Rightarrow> False
      | Some it \<Rightarrow> type it = Type_Container \<longrightarrow> (\<forall>c \<in> set (children it). depth_ok n s c))"

text \<open>The indexes of the top-level rows: the children of the root, with their positions.\<close>

definition top_level_indexes :: "CollectionModel \<Rightarrow> QModelIndex list" where
  "top_level_indexes s =
     (case root s of
        None \<Rightarrow> []
      | Some r \<Rightarrow>
          (case items s r of
             None \<Rightarrow> []
           | Some rit \<Rightarrow> map (\<lambda>(i, p). Index (int i) p) (enumerate 0 (children rit))))"

definition model_ok :: "CollectionModel \<Rightarrow> bool" where
  "model_ok s = (tree_ok s \<and> tables_ok s \<and> songs_ok s)"

text \<open>The members of the model that the invariant of the tree reads.\<close>

definition tracked :: "CollectionModel \<Rightarrow> _" where
  "tracked s = (items s, next_item s, root s, song_nodes s, container_nodes s, songs s)"

text \<open>
  The two ways to flatten the whole tree with \<open>GetChildSongs\<close>: the call on the invalid
  index, which stands for the root, and the call on the list of the top-level rows.
\<close>

definition flatten_root :: "nat \<Rightarrow> CollectionModel \<Rightarrow> Song list option" where
  "flatten_root n s = GetChildSongs_index n s InvalidIndex"

definition flatten_top_level :: "nat \<Rightarrow> CollectionModel \<Rightarrow> Song list option" where
  "flatten_top_level n s = GetChildSongs_indexes n s (top_level_indexes s)"

text \<open>A filter that lets through the song of identifier 7 only.\<close>

definition only_song_7 :: Lib where
  "only_song_7 = example_Lib\<lparr>Matches := (\<lambda>sg. song_id sg = 7)\<rparr>"

section \<open>What the tree operations leave alone\<close>

lemma fixed_simps [simp]:
  "fixed (emit sg s) = fixed s"
  "fixed (qLog_Error m s) = fixed s"
  "fixed (refresh_song g s) = fixed s"
  "fixed (s\<lparr>items := h\<rparr>) = fixed s"
  "fixed (s\<lparr>next_item := n\<rparr>) = fixed s"
  "fixed (s\<lparr>root := r\<rparr>) = fixed s"
  "fixed (s\<lparr>songs := sm\<rparr>) = fixed s"
  "fixed (s\<lparr>song_nodes := sn\<rparr>) = fixed s"
  "fixed (s\<lparr>container_nodes := cn\<rparr>) = fixed s"
  "fixed (s\<lparr>divider_nodes := dn\<rparr>) = fixed s"
  "fixed (s\<lparr>signals := sgs\<rparr>) = fixed s"
  "fixed (s\<lparr>error_log := el\<rparr>) = fixed s"
  by (simp_all add: fixed_def emit_def qLog_Error_def refresh_song_def)

lemma fixed_fields:
  assumes "fixed s' = fixed s"
  shows "group_by s' = group_by s" "separate_albums_by_grouping s' = separate_albums_by_grouping s"
    "sort_skips_articles s' = sort_skips_articles s" "show_dividers s' = show_dividers s"
    "updates s' = updates s" "timer_update_active s' = timer_update_active s"
  using assms by (simp_all add: fixed_def)

lemma fixed_update_item: "update_item p f s = Some s' \<Longrightarrow> fixed s' = fixed s"
  by (auto simp: update_item_def split: option.splits)

lemma fixed_new: "new_CollectionItem L t par s = Some (p, s') \<Longrightarrow> fixed s' = fixed s"
  by (auto simp: new_CollectionItem_def split: option.splits)

lemma fixed_begin: "begin_insert_at_end par s = Some s' \<Longrightarrow> fixed s' = fixed s"
  by (auto simp: begin_insert_at_end_def split: option.splits)

lemma fixed_Delete: "Delete p r s = Some s' \<Longrightarrow> fixed s' = fixed s"
  by (auto simp: Delete_def Let_def split: option.splits if_splits bind_splits)

lemma fixed_CreateCompilationArtistNode:
  "CreateCompilationArtistNode L sig par s = Some (c, s') \<Longrightarrow> fixed s' = fixed s"
  unfolding CreateCompilationArtistNode_def
  by (auto split: bind_splits if_splits
      dest!: fixed_begin fixed_new fixed_update_item)

lemma fixed_InitItem: "InitItem L gb sig par lvl s = Some (p, s') \<Longrightarrow> fixed s' = fixed s"
  unfolding InitItem_def
  by (auto split: bind_splits if_splits
      dest!: fixed_begin fixed_new fixed_update_item)

lemma fixed_FinishItem: "FinishItem L gb sig cd par p s = Some s' \<Longrightarrow> fixed s' = fixed s"
  unfolding FinishItem_def Let_def
  by (auto split: bind_splits if_splits
      dest!: fixed_begin fixed_new fixed_update_item)

lemma fixed_ItemFromSong:
  "ItemFromSong L gb sep sig cd par sg lvl s = Some (p, s') \<Longrightarrow> fixed s' = fixed s"
  unfolding ItemFromSong_def
  by (auto split: bind_splits if_splits
      dest!: fixed_InitItem fixed_FinishItem fixed_update_item)

lemma fixed_find_containers:
  "find_containers L sg lv c k s = Some (c', s') \<Longrightarrow> fixed s' = fixed s"
proof (induction lv arbitrary: c k s)
  case Nil
  then show ?case by simp
next
  case (Cons i rest)
  show ?case
    using Cons.prems
    by (auto simp: Let_def split: if_splits bind_splits option.splits
        dest!: Cons.IH fixed_CreateCompilationArtistNode fixed_ItemFromSong)
qed

declare find_containers.simps [simp del]

lemma fixed_AddSong: "AddSong L sg s = Some s' \<Longrightarrow> fixed s' = fixed s"
  unfolding AddSong_def Let_def
  by (auto split: if_splits bind_splits dest!: fixed_find_containers fixed_ItemFromSong)

lemma fixed_AddSongs: "AddSongs L sl s = Some s' \<Longrightarrow> fixed s' = fixed s"
  by (induction sl arbitrary: s) (auto split: option.splits dest!: fixed_AddSong)

lemma fixed_UpdateSongs: "UpdateSongs L sl s = Some s' \<Longrightarrow> fixed s' = fixed s"
proof (induction sl arbitrary: s)
  case Nil
  then show ?case by simp
next
  case (Cons sg rest)
  show ?case
    using Cons.prems
    by (auto simp: Let_def split: if_splits bind_splits option.splits dest!: Cons.IH)
qed

lemma fixed_remove_song_nodes:
  "remove_song_nodes sl ps s = Some (ps', s') \<Longrightarrow> fixed s' = fixed s"
proof (induction sl arbitrary: ps s)
  case Nil
  then show ?case by simp
next
  case (Cons sg rest)
  show ?case
    using Cons.prems
    by (auto simp: Let_def split: if_splits bind_splits option.splits dest!: Cons.IH fixed_Delete)
qed

lemma fixed_prune_round:
  "prune_round L cp ps dks s = Some (ps', dks', s') \<Longrightarrow> fixed s' = fixed s"
proof (induction cp arbitrary: ps dks s)
  case Nil
  then show ?case by simp
next
  case (Cons node rest)
  show ?case
    using Cons.prems
    by (auto simp: Let_def split: if_splits bind_splits option.splits
        dest!: Cons.IH fixed_Delete fixed_update_item)
qed

lemma fixed_prune_parents_aux:
  "prune_parents L ps dks s = Some y \<Longrightarrow> fixed (snd y) = fixed s"
proof (induction rule: prune_parents.raw_induct[rotated 1, consumes 1])
  case (1 prune L ps dks s y)
  show ?case
    using 1(2) by (auto split: if_splits bind_splits dest!: fixed_prune_round 1(1))
qed

lemma fixed_prune_parents:
  "prune_parents L ps dks s = Some (dks', s') \<Longrightarrow> fixed s' = fixed s"
  by (drule fixed_prune_parents_aux) simp

lemma fixed_delete_empty_dividers:
  "delete_empty_dividers L dks s = Some s' \<Longrightarrow> fixed s' = fixed s"
proof (induction dks arbitrary: s)
  case Nil
  then show ?case by simp
next
  case (Cons dk rest)
  show ?case
    using Cons.prems
    by (auto simp: Let_def split: if_splits bind_splits option.splits dest!: Cons.IH fixed_Delete)
qed

lemma fixed_RemoveSongs: "RemoveSongs L sl s = Some s' \<Longrightarrow> fixed s' = fixed s"
  unfolding RemoveSongs_def
  by (auto split: bind_splits
      dest!: fixed_remove_song_nodes fixed_prune_parents fixed_delete_empty_dividers)

section \<open>The update scheduler splits batches and dispatches one entry per tick\<close>

lemma ScheduleUpdate_loop_chunks:
  "\<exists>chunks. ScheduleUpdate_loop t sl i q = q @ map (CollectionModelUpdate t) chunks \<and>
      concat chunks = drop i sl \<and>
      list_all (\<lambda>c. c \<noteq> [] \<and> length c \<le> 400) chunks \<and>
      length chunks = (length sl - i + 399) div 400"
proof (induction t sl i q rule: ScheduleUpdate_loop.induct)
  case (1 t sl i q)
  show ?case
  proof (cases "i < length sl")
    case False
    then show ?thesis
      by (subst ScheduleUpdate_loop.simps) (auto intro!: exI[of _ "[]"])
  next
    case True
    let ?c = "take (min (length sl - i) 400) (drop i sl)"
    from 1[OF True] obtain chunks where
      a: "ScheduleUpdate_loop t sl (i + 400) (q @ [CollectionModelUpdate t ?c])
            = (q @ [CollectionModelUpdate t ?c]) @ map (CollectionModelUpdate t) chunks"
      and b: "concat chunks = drop (i + 400) sl"
      and c: "list_all (\<lambda>c. c \<noteq> [] \<and> length c \<le> 400) chunks"
      and d: "length chunks = (length sl - (i + 400) + 399) div 400"
      by blast
    have e: "?c = take 400 (drop i sl)" by (simp add: min_def)
    have f: "take 400 (drop i sl) @ drop (i + 400) sl = drop i sl"
      by (metis add.commute append_take_drop_id drop_drop)
    have g: "?c \<noteq> []" using True by auto
    have h: "Suc ((length sl - (i + 400) + 399) div 400) = (length sl - i + 399) div 400"
    proof (cases "length sl - i \<le> 400")
      case le: True
      have "length sl - (i + 400) = 0" using le by simp
      moreover have "(length sl - i + 399) div 400 = 1"
      proof -
        have "400 \<le> length sl - i + 399" "length sl - i + 399 < 800" using True le by auto
        then show ?thesis by (simp add: div_nat_eqI)
      qed
      ultimately show ?thesis by simp
    next
      case gt: False
      have "length sl - i + 399 = (length sl - (i + 400) + 399) + 400" using gt by simp
      then show ?thesis by (metis Suc_eq_plus1 div_add_self2 zero_neq_numeral)
    qed
    show ?thesis
      apply (subst ScheduleUpdate_loop.simps)
      apply (rule exI[of _ "?c # chunks"])
      using True a b c d f g h by (simp add: e)
  qed
qed

lemma fixed_ReAddOrUpdate_loop:
  "ReAddOrUpdate_loop L sl a r u s = Some (a', r', u', s') \<Longrightarrow> fixed s' = fixed s"
proof (induction sl arbitrary: a r u s)
  case Nil
  then show ?case by simp
next
  case (Cons sg rest)
  show ?case
    using Cons.prems
    by (auto simp del: ContainerKey.simps split: if_splits bind_splits option.splits dest!: Cons.IH)
qed

lemma updates_ScheduleUpdate: "\<exists>new. updates (ScheduleUpdate t sl s) = updates s @ new"
  using ScheduleUpdate_loop_chunks[of t sl 0 "updates s"]
  by (auto simp: ScheduleUpdate_def)

lemma updates_ReAddOrUpdate:
  assumes "ReAddOrUpdate L sl s = Some s'"
  shows "\<exists>new. updates s' = updates s @ new"
proof -
  from assms obtain a r u s1 where l: "ReAddOrUpdate_loop L sl [] [] [] s = Some (a, r, u, s1)"
    and s': "s' = SongsAdded a (SongsRemoved r (SongsUpdated u s1))"
    by (auto simp: ReAddOrUpdate_def split: bind_splits)
  have "updates s1 = updates s"
    using fixed_ReAddOrUpdate_loop[OF l] by (rule fixed_fields)
  moreover obtain n1 where "updates (SongsUpdated u s1) = updates s1 @ n1"
    using updates_ScheduleUpdate unfolding SongsUpdated_def by blast
  moreover obtain n2 where "updates (SongsRemoved r (SongsUpdated u s1)) = updates (SongsUpdated u s1) @ n2"
    using updates_ScheduleUpdate unfolding SongsRemoved_def by blast
  moreover obtain n3 where "updates s' = updates (SongsRemoved r (SongsUpdated u s1)) @ n3"
    using updates_ScheduleUpdate unfolding SongsAdded_def s' by blast
  ultimately show ?thesis by simp
qed

text \<open>
  Claim C6. \<open>ScheduleUpdate\<close> appends to the queue one entry per chunk; the chunks are
  consecutive pieces of the batch, none empty and none longer than 400 songs, and put
  together they are the batch in its order, so there are \<open>(n + 399) div 400\<close> of them, three
  for a batch of 1000. A tick of \<open>ProcessUpdate\<close> on an empty queue only stops the timer;
  on a queue with a first entry it takes that entry off and dispatches it to the operation
  of its type, and afterwards the queue is what followed the entry, extended only by what
  a \<open>ReAddOrUpdate\<close> entry schedules itself.
\<close>

theorem scheduler_chunks_and_ticks:
  "(\<exists>chunks. updates (ScheduleUpdate t sl s) = updates s @ map (CollectionModelUpdate t) chunks \<and>
       concat chunks = sl \<and>
       list_all (\<lambda>c. c \<noteq> [] \<and> length c \<le> 400) chunks \<and>
       length chunks = (length sl + 399) div 400) \<and>
   (length sl = 1000 \<longrightarrow> length (updates (ScheduleUpdate t sl s)) = length (updates s) + 3) \<and>
   (updates s = [] \<longrightarrow> ProcessUpdate L s = Some (s\<lparr>timer_update_active := False\<rparr>)) \<and>
   (updates s = CollectionModelUpdate ty x # rest \<longrightarrow>
      ProcessUpdate L s =
        (case ty of
           Update_Add \<Rightarrow> AddSongs L x
         | Update_Remove \<Rightarrow> RemoveSongs L x
         | Update_ReAddOrUpdate \<Rightarrow> ReAddOrUpdate L x
         | Update_Update \<Rightarrow> UpdateSongs L x)
          (s\<lparr>updates := rest,
             timer_update_active := (if rest = [] then False else timer_update_active s)\<rparr>)) \<and>
   (updates s = CollectionModelUpdate ty x # rest \<and> ProcessUpdate L s = Some s' \<longrightarrow>
      (\<exists>new. updates s' = rest @ new \<and> (ty \<noteq> Update_ReAddOrUpdate \<longrightarrow> new = [])))"
proof (intro conjI impI)
  show c: "\<exists>chunks. updates (ScheduleUpdate t sl s) = updates s @ map (CollectionModelUpdate t) chunks \<and>
       concat chunks = sl \<and> list_all (\<lambda>c. c \<noteq> [] \<and> length c \<le> 400) chunks \<and>
       length chunks = (length sl + 399) div 400"
    using ScheduleUpdate_loop_chunks[of t sl 0 "updates s"] by (simp add: ScheduleUpdate_def)
  show "length (updates (ScheduleUpdate t sl s)) = length (updates s) + 3" if "length sl = 1000"
    using c that by auto
  show "ProcessUpdate L s = Some (s\<lparr>timer_update_active := False\<rparr>)" if "updates s = []"
    using that by (simp add: ProcessUpdate_def)
  show d: "ProcessUpdate L s =
        (case ty of
           Update_Add \<Rightarrow> AddSongs L x
         | Update_Remove \<Rightarrow> RemoveSongs L x
         | Update_ReAddOrUpdate \<Rightarrow> ReAddOrUpdate L x
         | Update_Update \<Rightarrow> UpdateSongs L x)
          (s\<lparr>updates := rest,
             timer_update_active := (if rest = [] then False else timer_update_active s)\<rparr>)"
    if "updates s = CollectionModelUpdate ty x # rest"
    using that by (cases ty) (simp_all add: ProcessUpdate_def)
  show "\<exists>new. updates s' = rest @ new \<and> (ty \<noteq> Update_ReAddOrUpdate \<longrightarrow> new = [])"
    if h: "updates s = CollectionModelUpdate ty x # rest \<and> ProcessUpdate L s = Some s'"
  proof -
    let ?s1 = "s\<lparr>updates := rest,
             timer_update_active := (if rest = [] then False else timer_update_active s)\<rparr>"
    from h d have e: "(case ty of
           Update_Add \<Rightarrow> AddSongs L x
         | Update_Remove \<Rightarrow> RemoveSongs L x
         | Update_ReAddOrUpdate \<Rightarrow> ReAddOrUpdate L x
         | Update_Update \<Rightarrow> UpdateSongs L x) ?s1 = Some s'" by simp
    show ?thesis
    proof (cases ty)
      case Update_Add
      with e have "fixed s' = fixed ?s1" by (auto dest: fixed_AddSongs)
      then have "updates s' = updates ?s1" by (rule fixed_fields)
      with Update_Add show ?thesis by simp
    next
      case Update_Remove
      with e have "fixed s' = fixed ?s1" by (auto dest: fixed_RemoveSongs)
      then have "updates s' = updates ?s1" by (rule fixed_fields)
      with Update_Remove show ?thesis by simp
    next
      case Update_ReAddOrUpdate
      with e have "\<exists>new. updates s' = updates ?s1 @ new" by (auto dest: updates_ReAddOrUpdate)
      with Update_ReAddOrUpdate show ?thesis by simp
    next
      case Update_Update
      with e have "fixed s' = fixed ?s1" by (auto dest: fixed_UpdateSongs)
      then have "updates s' = updates ?s1" by (rule fixed_fields)
      with Update_Update show ?thesis by simp
    qed
  qed
qed

theorem scheduler_chunks_and_ticks_witness:
  "length (updates (ScheduleUpdate Update_Add (replicate 1000 example_Song) (CollectionModel_new example_Lib))) = 3 \<and>
   ProcessUpdate example_Lib ((CollectionModel_new example_Lib)\<lparr>updates := []\<rparr>) =
     Some ((CollectionModel_new example_Lib)\<lparr>updates := [], timer_update_active := False\<rparr>) \<and>
   (\<exists>new. updates ((CollectionModel_new example_Lib)\<lparr>updates := []\<rparr>) = [] @ new \<and> new = [])"
  using scheduler_chunks_and_ticks[of Update_Add "replicate 1000 example_Song" "CollectionModel_new example_Lib"
      example_Lib Update_Update "[]" "[]" "(CollectionModel_new example_Lib)\<lparr>updates := []\<rparr>"]
  by (simp add: CollectionModel_new_def)

section \<open>The order of siblings\<close>

lemma nat_digits_small: "n < 10 \<Longrightarrow> nat_digits n = [char_of (48 + n)]"
  by (subst nat_digits.simps) simp

lemma char_of_48: "char_of (48::nat) = CHR ''0''"
  by code_simp

lemma nat_digits_0: "nat_digits 0 = ''0''"
  by (simp add: nat_digits_small char_of_48)

lemma SortTextForNumber_0: "SortTextForNumber 0 = ''0000''"
  by (simp add: SortTextForNumber_def arg_zero_padded_def nat_digits_0 eval_nat_numeral)

lemma CompareItems_string: "CompareItems a b = (sort_text a < sort_text b)"
  by (simp add: CompareItems_def data_Role_SortText_def item_SortText_def)

lemma sort_text_album_item: "sort_text (album_item a) = a @ ''0000''"
  by (simp add: album_item_def example_Song_def SortTextForNumber_0)

lemma parse_int_100000: "parse_int ''100000'' = Some 100000"
  by (simp add: parse_int_def trimmed_def isSpace_def isDigit_def digits_value_def)

lemma parse_int_90000: "parse_int ''90000'' = Some 90000"
  by (simp add: parse_int_def trimmed_def isSpace_def isDigit_def digits_value_def)

lemma length_nat_digits_pos: "0 < length (nat_digits n)"
  by (subst nat_digits.simps) simp

lemma int32_wraps: "int32 (int32 (3000000 * 1000) + 1) = - 1294967295"
  by (simp add: int32_def)

lemma SortTextForSong_inj_url:
  assumes "disc a = disc b" "track a = track b" "url a \<noteq> url b"
  shows "SortTextForSong a \<noteq> SortTextForSong b"
  using assms by (simp add: SortTextForSong_def Let_def)

section \<open>Divider keys\<close>

lemma nat_digits_1994: "nat_digits 1994 = ''1994''"
  by code_simp

lemma nat_digits_1990: "nat_digits 1990 = ''1990''"
  by code_simp

lemma SortTextForNumber_1994: "SortTextForNumber 1994 = ''1994''"
  by (simp add: SortTextForNumber_def arg_zero_padded_def nat_digits_1994)

lemma SortTextForNumber_1990: "SortTextForNumber 1990 = ''1990''"
  by (simp add: SortTextForNumber_def arg_zero_padded_def nat_digits_1990)

lemma isDigit_char_of: "d < 10 \<Longrightarrow> isDigit (char_of (48 + d :: nat))"
  by (simp add: isDigit_def)

lemma of_char_digit: "d < 10 \<Longrightarrow> of_char (char_of (48 + d :: nat)) = (48 + d :: nat)"
  by simp

lemma nat_digits_all_digits: "list_all isDigit (nat_digits n)"
proof (induction n rule: nat_digits.induct)
  case (1 n)
  show ?case
    by (subst nat_digits.simps) (use 1 in \<open>auto simp: isDigit_char_of\<close>)
qed

lemma nat_digits_nonempty: "nat_digits n \<noteq> []"
  by (subst nat_digits.simps) simp

lemma digits_value_snoc: "digits_value (ds @ [c]) = 10 * digits_value ds + (of_char c - 48)"
  by (simp add: digits_value_def)

lemma digits_value_nat_digits: "digits_value (nat_digits n) = n"
proof (induction n rule: nat_digits.induct)
  case (1 n)
  show ?case
  proof (cases "n < 10")
    case True
    then show ?thesis
      by (subst nat_digits.simps) (simp add: digits_value_def)
  next
    case False
    have m: "n mod 10 < 10" by simp
    from False 1 show ?thesis
      by (subst nat_digits.simps) (simp add: digits_value_snoc of_char_digit[OF m])
  qed
qed

lemma digits_value_zeros: "digits_value (replicate k CHR ''0'' @ ds) = digits_value ds"
proof -
  have "foldl (\<lambda>acc c. 10 * acc + (of_char c - 48)) (0::nat) (replicate k CHR ''0'') = 0"
    by (induction k) simp_all
  then show ?thesis by (simp add: digits_value_def)
qed

lemma isDigit_not_isSpace: "isDigit c \<Longrightarrow> \<not> isSpace c"
  by (auto simp: isDigit_def isSpace_def Let_def)

lemma isDigit_not_sign: "isDigit c \<Longrightarrow> c \<noteq> CHR ''-'' \<and> c \<noteq> CHR ''+''"
  by (auto simp: isDigit_def)

lemma isDigit_zero: "isDigit CHR ''0''"
  by (simp add: isDigit_def)

lemma trimmed_digits_space:
  assumes "list_all isDigit ds" "ds \<noteq> []"
  shows "trimmed (ds @ '' '') = ds"
proof -
  obtain c cs where ds: "ds = c # cs" using assms(2) by (cases ds) auto
  obtain e es where rds: "rev ds = e # es" using assms(2) by (cases "rev ds") auto
  have "isDigit c" using assms(1) ds by simp
  then have a: "dropWhile isSpace (ds @ '' '') = ds @ '' ''"
    using ds by (simp add: isDigit_not_isSpace)
  have "e \<in> set ds" using rds by (metis list.set_intros(1) set_rev)
  then have "isDigit e" using assms(1) by (simp add: list_all_iff)
  then have "\<not> isSpace e" by (rule isDigit_not_isSpace)
  moreover have "isSpace CHR '' ''" by (simp add: isSpace_def)
  ultimately have b: "dropWhile isSpace (rev (ds @ '' '')) = rev ds"
    using rds by simp
  show ?thesis unfolding trimmed_def a b by simp
qed

lemma parse_int_digits_space:
  assumes "list_all isDigit ds" "ds \<noteq> []" "int (digits_value ds) \<le> 2147483647"
  shows "parse_int (ds @ '' '') = Some (int (digits_value ds))"
proof -
  obtain c cs where ds: "ds = c # cs" using assms(2) by (cases ds) auto
  have "isDigit c" using assms(1) ds by simp
  then have "hd ds \<noteq> CHR ''-''" "hd ds \<noteq> CHR ''+''" using ds isDigit_not_sign by auto
  then show ?thesis
    using assms by (simp add: parse_int_def trimmed_digits_space Let_def)
qed

lemma toInt_SortTextForNumber:
  assumes "0 \<le> n" "n \<le> 2147483647"
  shows "toInt (SortTextForNumber n @ '' '') = n"
proof -
  let ?ds = "replicate (4 - length (nat_digits (nat n))) CHR ''0'' @ nat_digits (nat n)"
  have a: "SortTextForNumber n = ?ds"
    using assms by (simp add: SortTextForNumber_def arg_zero_padded_def Let_def)
  have b: "list_all isDigit ?ds"
    using nat_digits_all_digits[of "nat n"] by (auto simp: list_all_iff isDigit_zero)
  have c: "?ds \<noteq> []" by (simp add: nat_digits_nonempty)
  have d: "digits_value ?ds = nat n" by (simp add: digits_value_zeros digits_value_nat_digits)
  show ?thesis
    unfolding a toInt_def using parse_int_digits_space[OF b c] assms by (simp add: d)
qed






lemma SortTextForNumber_nonempty: "SortTextForNumber n \<noteq> []"
  by (simp add: SortTextForNumber_def arg_zero_padded_def Let_def nat_digits_nonempty)


section \<open>The editable attribute\<close>

lemma any_not_editable_all:
  "\<forall>c \<in> set cs. data_Role_Editable n L s c = Some (e c) \<Longrightarrow>
   any_not_editable n L s cs = Some (\<exists>c \<in> set cs. \<not> e c)"
  by (induction cs) auto

lemma data_Role_Editable_Song:
  "items s p = Some it \<Longrightarrow> type it = Type_Song \<Longrightarrow>
   data_Role_Editable n L s p = Some (IsEditable L (metadata it))"
  by (cases n) auto

lemma data_Role_Editable_empty:
  "items s p = Some it \<Longrightarrow> type it = Type_Container \<Longrightarrow> children it = [] \<Longrightarrow>
   data_Role_Editable n L s p = Some False"
  by (cases n) auto

lemma data_Role_Editable_other:
  "items s p = Some it \<Longrightarrow> type it \<noteq> Type_Container \<Longrightarrow> type it \<noteq> Type_Song \<Longrightarrow>
   data_Role_Editable n L s p = Some False"
  by (cases n) auto

lemma data_Role_Editable_Container:
  assumes "items s p = Some it" "type it = Type_Container" "children it \<noteq> []"
    and "\<forall>c \<in> set (children it). data_Role_Editable n L s c = Some (e c)"
  shows "data_Role_Editable (Suc n) L s p = Some (\<forall>c \<in> set (children it). e c)"
  using assms any_not_editable_all[OF assms(4)] by auto

lemma data_Role_Editable_mono:
  "data_Role_Editable n L s p = Some b \<Longrightarrow> data_Role_Editable (Suc n) L s p = Some b"
  and any_not_editable_mono:
  "any_not_editable n L s cs = Some b \<Longrightarrow> any_not_editable (Suc n) L s cs = Some b"
proof (induction n L s p and n L s cs arbitrary: b and b rule: data_Role_Editable_any_not_editable.induct)
  case (1 L s p)
  then show ?case by (auto split: option.splits if_splits)
next
  case (2 n L s p)
  show ?case
  proof (cases "items s p")
    case None
    with 2(2) show ?thesis by simp
  next
    case (Some it)
    show ?thesis
    proof (cases "type it = Type_Container \<and> children it \<noteq> []")
      case False
      with Some 2(2) show ?thesis by (auto split: if_splits)
    next
      case True
      with Some 2(2) obtain b' where b': "any_not_editable n L s (children it) = Some b'"
        by (auto split: option.splits)
      have "any_not_editable (Suc n) L s (children it) = Some b'"
        using 2(1)[OF Some _ _ b'] True by simp
      with Some True 2(2) b' show ?thesis by simp
    qed
  qed
next
  case (3 n L s)
  then show ?case by simp
next
  case (4 n L s c cs)
  from 4(3) obtain b1 where b1: "data_Role_Editable n L s c = Some b1"
    by (auto split: option.splits)
  have s1: "data_Role_Editable (Suc n) L s c = Some b1" using 4(1)[OF b1] .
  show ?case
  proof (cases b1)
    case False
    with b1 s1 4(3) show ?thesis by simp
  next
    case True
    with b1 4(3) have r: "any_not_editable n L s cs = Some b" by simp
    have "any_not_editable (Suc n) L s cs = Some b" using 4(2)[OF b1 _ r] True by simp
    with s1 True show ?thesis by simp
  qed
qed

text \<open>
  Claim C7, as stated, fails: for a container with no children every child is editable,
  vacuously, and the answer of the query is false.
\<close>

theorem Role_Editable_empty_container_counterexample:
  "map_option type (items empty_container_model 1) = Some Type_Container \<and>
   map_option children (items empty_container_model 1) = Some [] \<and>
   data_Role_Editable 1 example_Lib empty_container_model 1 = Some False"
  by (simp add: empty_container_model_def blank_item_def)

text \<open>
  Claim C7, amended. The query answers, for a song leaf, whether its record is editable;
  for a container without children, false; for a container with children whose queries
  all answer, whether every child is editable; for any other kind of item, false. More
  fuel does not change an answer.
\<close>

theorem Role_Editable_meaning:
  "(items s p = Some it \<and> type it = Type_Song \<longrightarrow>
      data_Role_Editable n L s p = Some (IsEditable L (metadata it))) \<and>
   (items s p = Some it \<and> type it = Type_Container \<and> children it = [] \<longrightarrow>
      data_Role_Editable n L s p = Some False) \<and>
   (items s p = Some it \<and> type it = Type_Container \<and> children it \<noteq> [] \<and>
    (\<forall>c \<in> set (children it). data_Role_Editable n L s c = Some (e c)) \<longrightarrow>
      data_Role_Editable (Suc n) L s p = Some (\<forall>c \<in> set (children it). e c)) \<and>
   (items s p = Some it \<and> type it \<noteq> Type_Container \<and> type it \<noteq> Type_Song \<longrightarrow>
      data_Role_Editable n L s p = Some False) \<and>
   (data_Role_Editable n L s p = Some b \<longrightarrow> data_Role_Editable (Suc n) L s p = Some b)"
  using data_Role_Editable_Song[of s p it n L] data_Role_Editable_empty[of s p it n L]
    data_Role_Editable_Container[of s p it n L e] data_Role_Editable_other[of s p it n L]
    data_Role_Editable_mono[of n L s p b]
  by blast

theorem Role_Editable_meaning_witness:
  "data_Role_Editable 0 example_Lib (one_song_model (example_Song\<lparr>url := ''file:///a.flac''\<rparr>)) 1 = Some True \<and>
   data_Role_Editable 1 example_Lib empty_container_model 1 = Some False \<and>
   data_Role_Editable 1 example_Lib
     ((one_song_model (example_Song\<lparr>url := ''file:///a.flac''\<rparr>))
        \<lparr>items := (items (one_song_model (example_Song\<lparr>url := ''file:///a.flac''\<rparr>)))
                  (0 \<mapsto> (blank_item example_Lib Type_Container None (- 1))\<lparr>children := [1]\<rparr>)\<rparr>) 0
     = Some True \<and>
   data_Role_Editable 3 example_Lib (one_song_model example_Song) 0 = Some False"
  using Role_Editable_meaning[of "one_song_model (example_Song\<lparr>url := ''file:///a.flac''\<rparr>)" 1
      "the (items (one_song_model (example_Song\<lparr>url := ''file:///a.flac''\<rparr>)) 1)" 0 example_Lib]
    Role_Editable_meaning[of empty_container_model 1 "the (items empty_container_model 1)" 1 example_Lib]
    Role_Editable_meaning[of "(one_song_model (example_Song\<lparr>url := ''file:///a.flac''\<rparr>))
        \<lparr>items := (items (one_song_model (example_Song\<lparr>url := ''file:///a.flac''\<rparr>)))
                  (0 \<mapsto> (blank_item example_Lib Type_Container None (- 1))\<lparr>children := [1]\<rparr>)\<rparr>" 0
      "(blank_item example_Lib Type_Container None (- 1))\<lparr>children := [1]\<rparr>" 0 example_Lib "\<lambda>c. True"]
    Role_Editable_meaning[of "one_song_model example_Song" 0
      "the (items (one_song_model example_Song) 0)" 2 example_Lib]
  by (simp add: one_song_model_def empty_container_model_def blank_item_def example_Lib_def
      example_Song_def CollectionModel_new_def)

section \<open>The Various Artists container\<close>

lemma items_emit [simp]: "items (emit sg s) = items s"
  and divider_nodes_emit [simp]: "divider_nodes (emit sg s) = divider_nodes s"
  and root_emit [simp]: "root (emit sg s) = root s"
  and next_item_emit [simp]: "next_item (emit sg s) = next_item s"
  by (simp_all add: emit_def)

lemma CreateCompilationArtistNode_result:
  assumes "CreateCompilationArtistNode L sig par s = Some (c, s')"
  shows "\<exists>it. items s' c = Some it \<and> type it = Type_Container \<and> sort_text it = '' various'' \<and>
           display_text it = tr L kVariousArtists"
    and "divider_nodes s' = divider_nodes s"
    and "\<forall>p. p \<noteq> c \<longrightarrow> map_option type (items s' p) = map_option type (items s p)"
  using assms
  unfolding CreateCompilationArtistNode_def begin_insert_at_end_def new_CollectionItem_def
    update_item_def
  by (auto split: bind_splits if_splits option.splits simp: blank_item_def)

lemma FinishItem_no_divider:
  assumes "FinishItem L gb sig cd par p s = Some s'" "items s p = Some it" "DividerKey L gb it = []"
  shows "items s' = items s \<and> divider_nodes s' = divider_nodes s"
  using assms unfolding FinishItem_def Let_def
  by (auto split: if_splits bind_splits)

lemma space_less_letter_or_digit: "isLetter ch \<or> isDigit ch \<Longrightarrow> CHR '' '' < ch"
  by (auto simp: isLetter_def isDigit_def less_char_def Let_def)

text \<open>
  Claim C10. The container that \<open>CreateCompilationArtistNode\<close> makes has the sort text
  " various"; making it adds no divider: the table of dividers is unchanged and every other
  item keeps its kind. For the alphabetic groupings, the artist groupings among them, the
  divider key of an item whose sort text starts with a space is empty, so \<open>FinishItem\<close>
  applied to such a container would create nothing either. In the order of siblings the
  container comes before every item whose sort text starts with a letter or a digit.
\<close>

theorem various_artists_container:
  "(CreateCompilationArtistNode L sig par s = Some (c, s') \<longrightarrow>
      (\<exists>it. items s' c = Some it \<and> type it = Type_Container \<and> sort_text it = '' various'' \<and>
            display_text it = tr L kVariousArtists) \<and>
      divider_nodes s' = divider_nodes s \<and>
      (\<forall>p. p \<noteq> c \<longrightarrow> map_option type (items s' p) = map_option type (items s p))) \<and>
   (gb \<in> {GroupBy_AlbumArtist, GroupBy_Artist, GroupBy_Album, GroupBy_AlbumDisc,
           GroupBy_Composer, GroupBy_Performer, GroupBy_Grouping, GroupBy_Disc,
           GroupBy_Genre, GroupBy_Format, GroupBy_FileType} \<and>
    sort_text a = CHR '' '' # rest \<longrightarrow> DividerKey L gb a = []) \<and>
   (IsArtistGroupBy gb \<and> sort_text a = '' various'' \<and> items s p = Some a \<and>
    FinishItem L gb sig cd par p s = Some s' \<longrightarrow>
      items s' = items s \<and> divider_nodes s' = divider_nodes s) \<and>
   (sort_text a = '' various'' \<and> sort_text b = ch # rest \<and> (isLetter ch \<or> isDigit ch) \<longrightarrow>
      CompareItems a b \<and> \<not> CompareItems b a)"
proof (intro conjI impI)
  assume h: "CreateCompilationArtistNode L sig par s = Some (c, s')"
  show "\<exists>it. items s' c = Some it \<and> type it = Type_Container \<and> sort_text it = '' various'' \<and>
            display_text it = tr L kVariousArtists"
    using CreateCompilationArtistNode_result(1)[OF h] .
  show "divider_nodes s' = divider_nodes s"
    using CreateCompilationArtistNode_result(2)[OF h] .
  show "\<forall>p. p \<noteq> c \<longrightarrow> map_option type (items s' p) = map_option type (items s p)"
    using CreateCompilationArtistNode_result(3)[OF h] .
next
  assume "gb \<in> {GroupBy_AlbumArtist, GroupBy_Artist, GroupBy_Album, GroupBy_AlbumDisc,
           GroupBy_Composer, GroupBy_Performer, GroupBy_Grouping, GroupBy_Disc,
           GroupBy_Genre, GroupBy_Format, GroupBy_FileType} \<and> sort_text a = CHR '' '' # rest"
  then show "DividerKey L gb a = []"
    by (auto simp: DividerKey.simps isDigit_def)
next
  assume h: "IsArtistGroupBy gb \<and> sort_text a = '' various'' \<and> items s p = Some a \<and>
    FinishItem L gb sig cd par p s = Some s'"
  then have "DividerKey L gb a = []"
    by (auto simp: DividerKey.simps isDigit_def IsArtistGroupBy_def)
  with h FinishItem_no_divider[of L gb sig cd par p s s' a]
  show "items s' = items s" "divider_nodes s' = divider_nodes s" by auto
next
  assume h: "sort_text a = '' various'' \<and> sort_text b = ch # rest \<and> (isLetter ch \<or> isDigit ch)"
  then have "CHR '' '' < ch" using space_less_letter_or_digit by blast
  with h show "CompareItems a b" "\<not> CompareItems b a"
    by (auto simp: CompareItems_string)
qed

theorem various_artists_container_witness:
  "(\<exists>it. items (snd (the (CreateCompilationArtistNode example_Lib True 0 (CollectionModel_new example_Lib)))) 1 = Some it \<and>
      type it = Type_Container \<and> sort_text it = '' various'') \<and>
   CreateCompilationArtistNode example_Lib True 0 (CollectionModel_new example_Lib) \<noteq> None \<and>
   DividerKey example_Lib GroupBy_Artist
     ((blank_item example_Lib Type_Container (Some 0) 0)\<lparr>sort_text := '' various''\<rparr>) = [] \<and>
   CompareItems ((blank_item example_Lib Type_Container (Some 0) 0)\<lparr>sort_text := '' various''\<rparr>)
     ((blank_item example_Lib Type_Container (Some 0) 0)\<lparr>sort_text := ''b beatles''\<rparr>)"
proof -
  obtain s' where c: "CreateCompilationArtistNode example_Lib True 0 (CollectionModel_new example_Lib) = Some (1, s')"
    by (simp add: CreateCompilationArtistNode_def begin_insert_at_end_def ItemToIndex_def
        new_CollectionItem_def update_item_def CollectionModel_new_def blank_item_def emit_def)
  let ?va = "(blank_item example_Lib Type_Container (Some 0) 0)\<lparr>sort_text := '' various''\<rparr>"
  let ?b = "(blank_item example_Lib Type_Container (Some 0) 0)\<lparr>sort_text := ''b beatles''\<rparr>"
  have "isLetter CHR ''b''" by (simp add: isLetter_def)
  then show ?thesis
    using c various_artists_container[where L = example_Lib and sig = True and par = 0
        and s = "CollectionModel_new example_Lib" and c = 1 and s' = s' and gb = GroupBy_Artist
        and a = ?va and rest = "''various''" and b = ?b and ch = "CHR ''b''" and p = 0 and cd = False]
      various_artists_container[where L = example_Lib and sig = True and par = 0
        and s = "CollectionModel_new example_Lib" and c = 1 and s' = s' and gb = GroupBy_Artist
        and a = ?va and rest = "'' beatles''" and b = ?b and ch = "CHR ''b''" and p = 0 and cd = False]
    by auto
qed

section \<open>Updates change records, not the tree\<close>

lemma tree_shape_simps [simp]:
  "tree_shape (emit sg s) = tree_shape s"
  "tree_shape (qLog_Error m s) = tree_shape s"
  "tree_shape (refresh_song g s) = tree_shape s"
  "tree_shape (s\<lparr>songs := sm\<rparr>) = tree_shape s"
  "tree_shape (s\<lparr>signals := sgs\<rparr>) = tree_shape s"
  "tree_shape (s\<lparr>error_log := el\<rparr>) = tree_shape s"
  by (simp_all add: tree_shape_def emit_def qLog_Error_def refresh_song_def)


lemma signals_simps [simp]:
  "signals (emit sg s) = signals s @ [sg]"
  "signals (qLog_Error m s) = signals s"
  "signals (refresh_song g s) = signals s"
  by (simp_all add: emit_def qLog_Error_def refresh_song_def)

lemma items_simps [simp]:
  "items (qLog_Error m s) = items s"
  "items (refresh_song g s) = items s"
  "song_nodes (qLog_Error m s) = song_nodes s"
  "song_nodes (refresh_song g s) = song_nodes s"
  "song_nodes (emit sg s) = song_nodes s"
  by (simp_all add: emit_def qLog_Error_def refresh_song_def)





section \<open>Adding twice is adding once\<close>

lemma records_simps [simp]:
  "records (emit sg s) = records s"
  "records (s\<lparr>items := h\<rparr>) = records s"
  "records (s\<lparr>next_item := n\<rparr>) = records s"
  "records (s\<lparr>container_nodes := cn\<rparr>) = records s"
  "records (s\<lparr>divider_nodes := dn\<rparr>) = records s"
  "records (s\<lparr>signals := sgs\<rparr>) = records s"
  by (simp_all add: records_def emit_def)

lemma records_fields:
  assumes "records s' = records s"
  shows "songs s' = songs s" "song_nodes s' = song_nodes s" "error_log s' = error_log s"
    "root s' = root s"
  using assms by (simp_all add: records_def)

lemma records_update_item: "update_item p f s = Some s' \<Longrightarrow> records s' = records s"
  by (auto simp: update_item_def split: option.splits)

lemma records_new: "new_CollectionItem L t par s = Some (p, s') \<Longrightarrow> records s' = records s"
  by (auto simp: new_CollectionItem_def split: option.splits)

lemma records_begin: "begin_insert_at_end par s = Some s' \<Longrightarrow> records s' = records s"
  by (auto simp: begin_insert_at_end_def split: option.splits)

lemma records_CreateCompilationArtistNode:
  "CreateCompilationArtistNode L sig par s = Some (c, s') \<Longrightarrow> records s' = records s"
  unfolding CreateCompilationArtistNode_def
  by (auto split: bind_splits if_splits
      dest!: records_begin records_new records_update_item)

lemma records_InitItem: "InitItem L gb sig par lvl s = Some (p, s') \<Longrightarrow> records s' = records s"
  unfolding InitItem_def
  by (auto split: bind_splits if_splits
      dest!: records_begin records_new records_update_item)

lemma records_FinishItem: "FinishItem L gb sig cd par p s = Some s' \<Longrightarrow> records s' = records s"
  unfolding FinishItem_def Let_def
  by (auto split: bind_splits if_splits
      dest!: records_begin records_new records_update_item)

lemma records_ItemFromSong:
  "ItemFromSong L gb sep sig cd par sg lvl s = Some (p, s') \<Longrightarrow> records s' = records s"
  unfolding ItemFromSong_def
  by (auto split: bind_splits if_splits
      dest!: records_InitItem records_FinishItem records_update_item)

lemma records_find_containers:
  "find_containers L sg lv c k s = Some (c', s') \<Longrightarrow> records s' = records s"
proof (induction lv arbitrary: c k s)
  case Nil
  then show ?case by (simp add: find_containers.simps)
next
  case (Cons i rest)
  show ?case
    using Cons.prems
    by (auto simp: find_containers.simps Let_def split: if_splits bind_splits option.splits
        dest!: Cons.IH records_CreateCompilationArtistNode records_ItemFromSong)
qed

lemma AddSong_tracked:
  "Matches L sg \<longrightarrow> song_nodes s (song_id sg) \<noteq> None \<Longrightarrow>
   AddSong L sg s = Some (s\<lparr>songs := (songs s)(song_id sg \<mapsto> sg)\<rparr>)"
  by (auto simp: AddSong_def Let_def)

lemma AddSong_records_aux:
  assumes "AddSong L sg s = Some s'"
  shows "songs s' = (songs s)(song_id sg \<mapsto> sg) \<and>
         (\<forall>k. song_nodes s k \<noteq> None \<longrightarrow> song_nodes s' k \<noteq> None) \<and>
         (Matches L sg \<longrightarrow> song_nodes s' (song_id sg) \<noteq> None)"
proof (cases "Matches L sg \<and> song_nodes s (song_id sg) = None")
  case False
  let ?s1 = "s\<lparr>songs := (songs s)(song_id sg \<mapsto> sg)\<rparr>"
  from False have "AddSong L sg s = Some ?s1" by (intro AddSong_tracked) auto
  then have "s' = ?s1" using assms by simp
  then show ?thesis using False by simp
next
  case True
  let ?s1 = "s\<lparr>songs := (songs s)(song_id sg \<mapsto> sg)\<rparr>"
  from True assms obtain r container s2 leaf s3 where
    f: "find_containers L sg [0, 1, 2] r [] ?s1 = Some (container, s2)"
    and i: "ItemFromSong L GroupBy_None (separate_albums_by_grouping s2) True False container sg (- 1) s2
              = Some (leaf, s3)"
    and s': "s' = s3\<lparr>song_nodes := (song_nodes s3)(song_id sg \<mapsto> leaf)\<rparr>"
    by (auto simp: AddSong_def Let_def split: bind_splits)
  have "records s3 = records ?s1"
    using records_find_containers[OF f] records_ItemFromSong[OF i] by simp
  then have "songs s3 = songs ?s1" "song_nodes s3 = song_nodes ?s1"
    by (rule records_fields)+
  with s' show ?thesis by simp
qed

lemma AddSong_records:
  assumes "AddSong L sg s = Some s'"
  shows "songs s' = (songs s)(song_id sg \<mapsto> sg)"
    and "song_nodes s k \<noteq> None \<Longrightarrow> song_nodes s' k \<noteq> None"
    and "Matches L sg \<Longrightarrow> song_nodes s' (song_id sg) \<noteq> None"
  using AddSong_records_aux[OF assms] by blast+

lemma upsert_all_Nil [simp]: "upsert_all m [] = m"
  by (simp add: upsert_all_def)

lemma upsert_all_Cons [simp]: "upsert_all m (sg # rest) = upsert_all (m(song_id sg \<mapsto> sg)) rest"
  by (simp add: upsert_all_def)

lemma AddSongs_records:
  "AddSongs L sl s = Some s' \<Longrightarrow>
   songs s' = upsert_all (songs s) sl \<and>
   (\<forall>k. song_nodes s k \<noteq> None \<longrightarrow> song_nodes s' k \<noteq> None) \<and>
   (\<forall>sg \<in> set sl. Matches L sg \<longrightarrow> song_nodes s' (song_id sg) \<noteq> None)"
proof (induction sl arbitrary: s)
  case Nil
  then show ?case by simp
next
  case (Cons sg rest)
  from Cons.prems obtain s1 where a: "AddSong L sg s = Some s1" and b: "AddSongs L rest s1 = Some s'"
    by (auto split: option.splits)
  note r = AddSong_records[OF a]
  note ih = Cons.IH[OF b]
  have "songs s' = upsert_all (songs s) (sg # rest)"
    using ih r(1) by (simp only: upsert_all_Cons)
  moreover have "\<forall>k. song_nodes s k \<noteq> None \<longrightarrow> song_nodes s' k \<noteq> None"
    using ih r(2) by blast
  moreover have "\<forall>x \<in> set (sg # rest). Matches L x \<longrightarrow> song_nodes s' (song_id x) \<noteq> None"
    using ih r(3) by (metis set_ConsD)
  ultimately show ?case by blast
qed

lemma AddSongs_tracked:
  "\<forall>sg \<in> set sl. Matches L sg \<longrightarrow> song_nodes s (song_id sg) \<noteq> None \<Longrightarrow>
   AddSongs L sl s = Some (s\<lparr>songs := upsert_all (songs s) sl\<rparr>)"
proof (induction sl arbitrary: s)
  case Nil
  then show ?case by simp
next
  case (Cons sg rest)
  let ?s1 = "s\<lparr>songs := (songs s)(song_id sg \<mapsto> sg)\<rparr>"
  have a: "AddSong L sg s = Some ?s1" using Cons.prems by (intro AddSong_tracked) simp
  have "\<forall>x \<in> set rest. Matches L x \<longrightarrow> song_nodes ?s1 (song_id x) \<noteq> None"
    using Cons.prems by simp
  then have "AddSongs L rest ?s1 = Some (?s1\<lparr>songs := upsert_all (songs ?s1) rest\<rparr>)"
    by (rule Cons.IH)
  moreover have "?s1\<lparr>songs := upsert_all (songs ?s1) rest\<rparr> = s\<lparr>songs := upsert_all (songs s) (sg # rest)\<rparr>"
    by simp
  ultimately show ?case using a by (simp only: AddSongs.simps option.case)
qed

lemma upsert_all_map_add:
  "upsert_all m sl = m ++ map_of (rev (map (\<lambda>sg. (song_id sg, sg)) sl))"
proof (induction sl arbitrary: m)
  case Nil
  then show ?case by simp
next
  case (Cons sg rest)
  have "m(song_id sg \<mapsto> sg) = m ++ [song_id sg \<mapsto> sg]" by simp
  then show ?case
    by (simp add: Cons.IH map_of_append del: map_add_upd)
qed

lemma upsert_all_idem: "upsert_all (upsert_all m sl) sl = upsert_all m sl"
proof -
  have "(m ++ f) ++ f = m ++ f" for f :: "int \<rightharpoonup> Song"
    by (auto simp: map_add_def fun_eq_iff split: option.splits)
  then show ?thesis by (simp add: upsert_all_map_add)
qed

lemma AddSongs_example_returns:
  "AddSongs example_Lib [tracked_Song] (reset_model example_Lib no_grouping True) \<noteq> None"
  by (simp add: AddSong_def find_containers.simps ItemFromSong_def InitItem_def
      begin_insert_at_end_def ItemToIndex_def new_CollectionItem_def update_item_def
      FinishItem_def reset_model_def CollectionModel_new_def no_grouping_def Grouping_at_def
      blank_item_def example_Lib_def Let_def)

lemma AddSongs_twice:
  assumes a: "AddSongs L sl s = Some s1"
  shows "AddSongs L sl s1 = Some s1"
proof -
  note r = AddSongs_records[OF a]
  from r have "\<forall>sg \<in> set sl. Matches L sg \<longrightarrow> song_nodes s1 (song_id sg) \<noteq> None" by blast
  then have "AddSongs L sl s1 = Some (s1\<lparr>songs := upsert_all (songs s1) sl\<rparr>)"
    by (rule AddSongs_tracked)
  moreover have "upsert_all (songs s1) sl = songs s1"
    using r upsert_all_idem[of "songs s" sl] by simp
  ultimately show "AddSongs L sl s1 = Some s1" by simp
qed

text \<open>
  Claim C2. When \<open>AddSongs\<close> of a song list returns a model, \<open>AddSongs\<close> of the same list on
  that model returns it unchanged: the same items, lookup tables, stored records and
  notifications. Hence adding twice is adding once, from every state.
\<close>

theorem AddSongs_idempotent:
  "(AddSongs L sl s = Some s1 \<longrightarrow> AddSongs L sl s1 = Some s1) \<and>
   Option.bind (AddSongs L sl s) (AddSongs L sl) = AddSongs L sl s"
  using AddSongs_twice[of L sl s] by (cases "AddSongs L sl s") auto

theorem AddSongs_idempotent_witness:
  "\<exists>s1. AddSongs example_Lib [tracked_Song] (reset_model example_Lib no_grouping True) = Some s1 \<and>
         AddSongs example_Lib [tracked_Song] s1 = Some s1"
  using AddSongs_example_returns
    AddSongs_idempotent[of example_Lib "[tracked_Song]" "reset_model example_Lib no_grouping True"]
  by blast

section \<open>Untracked songs are skipped\<close>

lemma put_records_fields [simp]:
  "items (put_records m l s) = items s"
  "next_item (put_records m l s) = next_item s"
  "root (put_records m l s) = root s"
  "songs (put_records m l s) = m"
  "song_nodes (put_records m l s) = song_nodes s"
  "container_nodes (put_records m l s) = container_nodes s"
  "divider_nodes (put_records m l s) = divider_nodes s"
  "group_by (put_records m l s) = group_by s"
  "signals (put_records m l s) = signals s"
  "error_log (put_records m l s) = l"
  by (simp_all add: put_records_def)

lemma put_records_commute [simp]:
  "emit sg (put_records m l s) = put_records m l (emit sg s)"
  "(put_records m l s)\<lparr>items := h\<rparr> = put_records m l (s\<lparr>items := h\<rparr>)"
  "(put_records m l s)\<lparr>song_nodes := sn\<rparr> = put_records m l (s\<lparr>song_nodes := sn\<rparr>)"
  "(put_records m l s)\<lparr>container_nodes := cn\<rparr> = put_records m l (s\<lparr>container_nodes := cn\<rparr>)"
  "(put_records m l s)\<lparr>divider_nodes := dn\<rparr> = put_records m l (s\<lparr>divider_nodes := dn\<rparr>)"
  by (simp_all add: put_records_def emit_def)

lemma put_records_put [simp]: "put_records m l (put_records m' l' s) = put_records m l s"
  by (simp add: put_records_def)

lemma put_records_same [simp]: "put_records (songs s) (error_log s) s = s"
  by (simp add: put_records_def)

lemma ItemToIndex_put [simp]: "ItemToIndex (put_records m l s) p = ItemToIndex s p"
  by (simp add: ItemToIndex_def)

lemma update_item_put [simp]:
  "update_item p f (put_records m l s) = map_option (put_records m l) (update_item p f s)"
  by (simp add: update_item_def split: option.splits)

lemma Delete_put [simp]:
  "Delete p r (put_records m l s) = map_option (put_records m l) (Delete p r s)"
  by (auto simp: Delete_def Let_def split: option.splits bind_splits)

lemma any_divider_key_put [simp]:
  "any_divider_key L gb dk ns (put_records m l s) = any_divider_key L gb dk ns s"
  by (induction ns) (auto split: option.splits)

lemma bind_map_option: "Option.bind (map_option f x) g = Option.bind x (\<lambda>y. g (f y))"
  by (cases x) auto

lemma map_option_bind_right:
  "map_option f (Option.bind x g) = Option.bind x (\<lambda>y. map_option f (g y))"
  by (cases x) auto

lemma prune_round_put:
  "prune_round L cp ps dks (put_records m l s) =
     map_option (\<lambda>(a, b, s'). (a, b, put_records m l s')) (prune_round L cp ps dks s)"
proof (induction cp arbitrary: ps dks s)
  case Nil
  then show ?case by simp
next
  case (Cons node rest)
  show ?case
  proof (cases "items s node")
    case None
    then show ?thesis by simp
  next
    case (Some nit)
    show ?thesis
    proof (cases "children nit \<noteq> []")
      case True
      with Some show ?thesis by (simp add: Cons.IH)
    next
      case False
      show ?thesis
      proof (cases "parent nit")
        case None
        with Some False show ?thesis by simp
      next
        case (Some par)
        note par = this
        show ?thesis
        proof (cases "items s par")
          case None
          with \<open>items s node = Some nit\<close> False par show ?thesis by simp
        next
          case (Some pit)
          note pit = this
          note nit = \<open>items s node = Some nit\<close>
          define E where "E = (\<lambda>s. if compilation_artist_node pit = Some node
              then update_item par (\<lambda>i. i\<lparr>compilation_artist_node := None\<rparr>) s
              else if container_level nit < 0 \<or> 2 < container_level nit then None
              else if map_of (container_nodes s (nat (container_level nit))) (key nit) \<noteq> None
              then Some (s\<lparr>container_nodes := (container_nodes s)
                             (nat (container_level nit) :=
                                AList.delete (key nit) (container_nodes s (nat (container_level nit))))\<rparr>)
              else Some s)"
          define F where "F = (\<lambda>s1. Option.bind (ItemToIndex s1 par) (\<lambda>idx.
               Option.bind (Delete par (row nit) (emit (beginRemoveRows idx (row nit) (row nit)) s1))
                 (\<lambda>s2. Some (emit endRemoveRows s2))))"
          define ps' where "ps' = (if Some par \<noteq> root s then set_insert par (removeAll node ps) else removeAll node ps)"
          define dks' where "dks' = (if container_level nit = 0
                then set_insert (DividerKey L (Grouping_at (group_by s) 0) nit) dks else dks)"
          have E_put: "E (put_records m l s) = map_option (put_records m l) (E s)"
            unfolding E_def by simp
          have F_put: "F (put_records m l s1) = map_option (put_records m l) (F s1)" for s1
            unfolding F_def by (simp add: bind_map_option map_option_bind_right)
          have u: "prune_round L (node # rest) ps dks t =
                     Option.bind (E t) (\<lambda>s1. Option.bind (F s1) (\<lambda>s3. prune_round L rest ps' dks' s3))"
            if "items t = items s" "root t = root s" "group_by t = group_by s" for t
            using that nit pit par False
            unfolding E_def F_def ps'_def dks'_def by simp
          have "prune_round L (node # rest) ps dks (put_records m l s) =
                  Option.bind (E (put_records m l s))
                    (\<lambda>s1. Option.bind (F s1) (\<lambda>s3. prune_round L rest ps' dks' s3))"
            by (rule u) simp_all
          also have "\<dots> = Option.bind (E s) (\<lambda>s1. Option.bind (F s1)
                       (\<lambda>s3. prune_round L rest ps' dks' (put_records m l s3)))"
            by (simp add: E_put F_put bind_map_option)
          also have "\<dots> = map_option (\<lambda>(a, b, s'). (a, b, put_records m l s'))
                       (Option.bind (E s) (\<lambda>s1. Option.bind (F s1) (\<lambda>s3. prune_round L rest ps' dks' s3)))"
            by (cases "E s"; simp) (case_tac "F a"; simp add: Cons.IH)
          also have "\<dots> = map_option (\<lambda>(a, b, s'). (a, b, put_records m l s'))
                       (prune_round L (node # rest) ps dks s)"
            by (subst u) simp_all
          finally show ?thesis .
        qed
      qed
    qed
  qed
qed

lemma prune_parents_put_Some:
  "prune_parents L ps dks s = Some y \<Longrightarrow>
   prune_parents L ps dks (put_records m l s) = Some (fst y, put_records m l (snd y))"
proof (induction rule: prune_parents.raw_induct[rotated 1, consumes 1])
  case (1 prune L ps dks s y)
  show ?case
  proof (cases "ps = []")
    case True
    with 1(2) show ?thesis by (subst prune_parents.simps) auto
  next
    case False
    with 1(2) obtain ps1 dks1 s1 where r: "prune_round L ps ps dks s = Some (ps1, dks1, s1)"
      and p: "prune L ps1 dks1 s1 = Some y"
      by (auto split: bind_splits)
    from 1(1)[OF p] r False show ?thesis
      by (subst prune_parents.simps) (simp add: prune_round_put)
  qed
qed

lemma prune_parents_put:
  "prune_parents L ps dks (put_records m l s) =
     map_option (\<lambda>(a, s'). (a, put_records m l s')) (prune_parents L ps dks s)"
proof (cases "prune_parents L ps dks s")
  case (Some y)
  from prune_parents_put_Some[OF this] Some show ?thesis by (simp add: case_prod_beta)
next
  case None
  show ?thesis
  proof (cases "prune_parents L ps dks (put_records m l s)")
    case (Some z)
    from prune_parents_put_Some[OF this, of "songs s" "error_log s"] None show ?thesis by simp
  next
    case n: None
    with None show ?thesis by simp
  qed
qed

lemma delete_empty_dividers_put:
  "delete_empty_dividers L dks (put_records m l s) =
     map_option (put_records m l) (delete_empty_dividers L dks s)"
proof (induction dks arbitrary: s)
  case Nil
  then show ?case by simp
next
  case (Cons dk rest)
  show ?case
  proof (cases "divider_nodes s dk")
    case None
    then show ?thesis by (simp add: Cons.IH)
  next
    case (Some d)
    define F where "F = (\<lambda>(dit :: CollectionItem) r s. Option.bind (ItemToIndex s r) (\<lambda>idx.
        Option.bind (Delete r (row dit) (emit (beginRemoveRows idx (row dit) (row dit)) s))
          (\<lambda>s1. Some ((emit endRemoveRows s1)\<lparr>divider_nodes := (divider_nodes s1)(dk := None)\<rparr>))))"
    have F_put: "F dit r (put_records m l s1) = map_option (put_records m l) (F dit r s1)" for dit r s1
      unfolding F_def by (simp add: bind_map_option map_option_bind_right)
    have u: "delete_empty_dividers L (dk # rest) t =
               Option.bind (any_divider_key L (Grouping_at (group_by t) 0) dk (QMap_values (container_nodes t 0)) t)
                 (\<lambda>used. if used then delete_empty_dividers L rest t
                         else Option.bind (items t d) (\<lambda>dit. Option.bind (root t) (\<lambda>r.
                                Option.bind (F dit r t) (delete_empty_dividers L rest))))"
      if "divider_nodes t = divider_nodes s" for t
      using that Some unfolding F_def by (simp cong: if_cong)
    show ?thesis
      apply (subst u, simp)
      apply (subst u, simp)
      apply (simp add: F_put bind_map_option map_option_bind_right Cons.IH if_distrib cong: if_cong)
      done
  qed
qed

lemma same_except_record_put:
  "(\<forall>i. i = k \<or> m i = songs a i) \<Longrightarrow> same_except_record k a (put_records m l a)"
  by (simp add: same_except_record_def put_records_def)

lemma same_except_record_refl: "same_except_record k a a"
  by (simp add: same_except_record_def)

lemma refresh_song_put:
  assumes "\<forall>i. i = k \<or> m i = songs s i"
  shows "\<exists>m'. refresh_song sg (put_records m l s) = put_records m' l (refresh_song sg s) \<and>
              (\<forall>i. i = k \<or> m' i = songs (refresh_song sg s) i)"
proof (cases "m (song_id sg) = None")
  case True
  then have "refresh_song sg (put_records m l s) = put_records m l (refresh_song sg s)"
    by (simp add: refresh_song_def put_records_def)
  moreover have "\<forall>i. i = k \<or> m i = songs (refresh_song sg s) i"
    using assms True by (auto simp: refresh_song_def)
  ultimately show ?thesis by blast
next
  case False
  then have "refresh_song sg (put_records m l s) = put_records (m(song_id sg \<mapsto> sg)) l (refresh_song sg s)"
    by (simp add: refresh_song_def put_records_def)
  moreover have "\<forall>i. i = k \<or> (m(song_id sg \<mapsto> sg)) i = songs (refresh_song sg s) i"
    using assms False by (auto simp: refresh_song_def)
  ultimately show ?thesis by blast
qed

lemma qLog_Error_put:
  "qLog_Error msg (put_records m l s) = put_records m (l @ [msg]) (qLog_Error msg s)"
  by (simp add: qLog_Error_def put_records_def)

lemma songs_qLog_Error [simp]: "songs (qLog_Error msg s) = songs s"
  and error_log_qLog_Error [simp]: "error_log (qLog_Error msg s) = error_log s @ [msg]"
  and error_log_refresh_song [simp]: "error_log (refresh_song sg s) = error_log s"
  and error_log_emit [simp]: "error_log (emit e s) = error_log s"
  and songs_emit [simp]: "songs (emit e s) = songs s"
  by (simp_all add: qLog_Error_def refresh_song_def emit_def)

lemma UpdateSongs_put:
  assumes "\<forall>i. i = k \<or> m i = songs s i"
  shows "rel_option (same_except_record k) (UpdateSongs L ys s) (UpdateSongs L ys (put_records m l s))"
  using assms
proof (induction ys arbitrary: s m l)
  case Nil
  then show ?case by (simp add: same_except_record_put)
next
  case (Cons sg rest)
  from refresh_song_put[OF Cons.prems, of sg l] obtain m' where
    r: "refresh_song sg (put_records m l s) = put_records m' l (refresh_song sg s)"
    and m': "\<forall>i. i = k \<or> m' i = songs (refresh_song sg s) i"
    by blast
  let ?s1 = "refresh_song sg s"
  show ?case
  proof (cases "song_nodes s (song_id sg)")
    case None
    have "rel_option (same_except_record k)
            (UpdateSongs L rest (qLog_Error ''Song does not exist in model'' ?s1))
            (UpdateSongs L rest (put_records m' (l @ [''Song does not exist in model''])
               (qLog_Error ''Song does not exist in model'' ?s1)))"
      using m' by (intro Cons.IH) simp_all
    with None show ?thesis by (simp add: Let_def r qLog_Error_put)
  next
    case (Some p)
    show ?thesis
    proof (cases "items s p")
      case None
      with Some show ?thesis by (simp add: Let_def r)
    next
      case it: (Some it)
      let ?s2 = "?s1\<lparr>items := (items s)(p \<mapsto> it\<lparr>metadata := sg\<rparr>)\<rparr>"
      have m2: "\<forall>i. i = k \<or> m' i = songs ?s2 i" using m' by simp
      show ?thesis
      proof (cases "IsCollectionMetadataEqual sg (metadata it)")
        case True
        have "rel_option (same_except_record k) (UpdateSongs L rest ?s2)
                (UpdateSongs L rest (put_records m' l ?s2))"
          using m2 by (rule Cons.IH)
        with Some it True show ?thesis by (simp add: Let_def r)
      next
        case False
        show ?thesis
        proof (cases "parent it = None")
          case True
          with Some it False show ?thesis
            using same_except_record_put[OF m2]
            by (simp add: Let_def r ItemToIndex_def)
        next
          case np: False
          let ?idx = "Index (row it) p"
          have "rel_option (same_except_record k) (UpdateSongs L rest (emit (dataChanged ?idx ?idx) ?s2))
                (UpdateSongs L rest (put_records m' l (emit (dataChanged ?idx ?idx) ?s2)))"
            using m2 by (intro Cons.IH) simp_all
          with Some it False np show ?thesis by (auto simp: Let_def r ItemToIndex_def)
        qed
      qed
    qed
  qed
qed

lemma same_except_recordD:
  assumes "same_except_record k s t"
  shows "t = put_records (songs t) (error_log t) s" "\<forall>i. i = k \<or> songs t i = songs s i"
  using assms by (simp_all add: same_except_record_def put_records_def)

lemma Delete_keeps:
  assumes "Delete p r s = Some s'"
  shows "songs s' = songs s" "error_log s' = error_log s" "song_nodes s' = song_nodes s"
  using assms by (auto simp: Delete_def Let_def split: bind_splits if_splits)

lemma put_closed:
  assumes "\<And>m l. f (put_records m l s) = map_option (put_records m l) (f s)" "f s = Some s'"
  shows "songs s' = songs s \<and> error_log s' = error_log s"
proof -
  have "f (put_records (songs s) (error_log s) s)
          = map_option (put_records (songs s) (error_log s)) (f s)"
    by (rule assms(1))
  then have "s' = put_records (songs s) (error_log s) s'" using assms(2) by simp
  then show ?thesis by (metis put_records_fields(4,10))
qed

lemma prune_parents_keeps:
  assumes "prune_parents L ps dks s = Some (dks', s')"
  shows "songs s' = songs s \<and> error_log s' = error_log s"
proof -
  have "prune_parents L ps dks (put_records (songs s) (error_log s) s)
          = map_option (\<lambda>(a, s'). (a, put_records (songs s) (error_log s) s')) (prune_parents L ps dks s)"
    by (rule prune_parents_put)
  then have "s' = put_records (songs s) (error_log s) s'" using assms by simp
  then show ?thesis by (metis put_records_fields(4,10))
qed

lemma delete_empty_dividers_keeps:
  assumes "delete_empty_dividers L dks s = Some s'"
  shows "songs s' = songs s \<and> error_log s' = error_log s"
  using put_closed[of "delete_empty_dividers L dks" s s'] assms
  by (simp add: delete_empty_dividers_put)

lemma remove_song_nodes_rel:
  assumes "same_except_record k s t"
  shows "rel_option (removal_related k) (remove_song_nodes ys ps s) (remove_song_nodes ys ps t)"
  using assms
proof (induction ys arbitrary: ps s t)
  case Nil
  then show ?case by (simp add: removal_related_def)
next
  case (Cons sg rest)
  note d = same_except_recordD[OF Cons.prems]
  from refresh_song_put[OF d(2), of sg "error_log t" ] d(1) obtain m' where
    r: "refresh_song sg t = put_records m' (error_log t) (refresh_song sg s)"
    and m': "\<forall>i. i = k \<or> m' i = songs (refresh_song sg s) i"
    by metis
  let ?s1 = "refresh_song sg s"
  show ?case
  proof (cases "song_nodes s (song_id sg)")
    case None
    have "same_except_record k ?s1 (put_records m' (error_log t) ?s1)"
      using m' by (intro same_except_record_put) simp_all
    from Cons.IH[OF this] None show ?thesis by (simp add: Let_def r)
  next
    case (Some node)
    show ?thesis
    proof (cases "items s node")
      case None
      with Some show ?thesis by (simp add: Let_def r)
    next
      case nit: (Some nit)
      show ?thesis
      proof (cases "parent nit")
        case None
        with Some nit show ?thesis by (simp add: Let_def r)
      next
        case par: (Some par)
        show ?thesis
        proof (cases "ItemToIndex s par")
          case None
          with Some nit par show ?thesis by (simp add: Let_def r ItemToIndex_def)
        next
          case idx: (Some idx)
          then have idx1: "ItemToIndex ?s1 par = Some idx" by (simp add: ItemToIndex_def)
          show ?thesis
          proof (cases "Delete par (row nit) (emit (beginRemoveRows idx (row nit) (row nit)) ?s1)")
            case None
            with Some nit par idx1 show ?thesis by (simp add: Let_def r)
          next
            case s2: (Some s2)
            let ?s3 = "emit endRemoveRows (s2\<lparr>song_nodes := (song_nodes s2)(song_id sg := None)\<rparr>)"
            note k = Delete_keeps[OF s2]
            have "same_except_record k ?s3 (put_records m' (error_log t) ?s3)"
              using m' k by (intro same_except_record_put) simp_all
            from Cons.IH[OF this, of "if Some par \<noteq> root ?s1 then set_insert par ps else ps"]
              Some nit par idx1 s2
            show ?thesis by (simp add: Let_def r)
          qed
        qed
      qed
    qed
  qed
qed

lemma RemoveSongs_finish_rel:
  assumes "removal_related k a b"
  shows "rel_option (same_except_record k)
           (Option.bind (prune_parents L (fst a) [] (snd a)) (\<lambda>(dks, s2). delete_empty_dividers L dks s2))
           (Option.bind (prune_parents L (fst b) [] (snd b)) (\<lambda>(dks, s2). delete_empty_dividers L dks s2))"
proof -
  obtain ps s1 where a: "a = (ps, s1)" by (cases a)
  from assms a obtain t1 where b: "b = (ps, t1)" and se: "same_except_record k s1 t1"
    by (cases b) (auto simp: removal_related_def)
  note d = same_except_recordD[OF se]
  show ?thesis
  proof (cases "prune_parents L ps [] s1")
    case None
    then show ?thesis
      unfolding a b by (subst d(1)) (simp add: prune_parents_put)
  next
    case (Some y)
    obtain dks s2 where y: "y = (dks, s2)" by (cases y)
    note k2 = prune_parents_keeps[OF Some[unfolded y]]
    show ?thesis
    proof (cases "delete_empty_dividers L dks s2")
      case None
      with Some y show ?thesis
        unfolding a b by (subst d(1)) (simp add: prune_parents_put delete_empty_dividers_put)
    next
      case s3: (Some s3)
      note k3 = delete_empty_dividers_keeps[OF s3]
      have "same_except_record k s3 (put_records (songs t1) (error_log t1) s3)"
        using d(2) k2 k3 by (intro same_except_record_put) simp_all
      with Some y s3 show ?thesis
        unfolding a b by (subst d(1)) (simp add: prune_parents_put delete_empty_dividers_put)
    qed
  qed
qed

lemma rel_option_refl_same: "rel_option (same_except_record k) x x"
  by (cases x) (simp_all add: same_except_record_refl)

lemma same_except_record_refresh: "same_except_record (song_id x) s (refresh_song x s)"
  by (simp add: same_except_record_def refresh_song_def)

lemma skipped_state:
  "qLog_Error msg (refresh_song x s) =
     put_records (songs (refresh_song x s)) (error_log s @ [msg]) s"
  by (simp add: qLog_Error_def refresh_song_def put_records_def)

lemma songs_refresh_song_other: "i = song_id x \<or> songs (refresh_song x s) i = songs s i"
  by (simp add: refresh_song_def)

lemma UpdateSongs_untracked_step:
  "song_nodes s (song_id x) = None \<Longrightarrow>
   UpdateSongs L (x # ys) s =
     UpdateSongs L ys (qLog_Error ''Song does not exist in model'' (refresh_song x s))"
  by (simp add: Let_def)

lemma UpdateSongs_skip:
  assumes "song_nodes s (song_id x) = None"
  shows "rel_option (same_except_record (song_id x))
           (UpdateSongs L (xs @ ys) s) (UpdateSongs L (xs @ x # ys) s)"
  using assms
proof (induction xs arbitrary: s)
  case Nil
  have "rel_option (same_except_record (song_id x)) (UpdateSongs L ys s)
          (UpdateSongs L ys (put_records (songs (refresh_song x s))
             (error_log s @ [''Song does not exist in model'']) s))"
    using songs_refresh_song_other by (intro UpdateSongs_put) blast
  then show ?case
    using Nil by (simp add: UpdateSongs_untracked_step skipped_state)
next
  case (Cons a rest)
  let ?s1 = "refresh_song a s"
  show ?case
  proof (cases "song_nodes s (song_id a)")
    case None
    have "song_nodes (qLog_Error ''Song does not exist in model'' ?s1) (song_id x) = None"
      using Cons.prems by simp
    from Cons.IH[OF this] None show ?thesis by (simp add: Let_def)
  next
    case (Some p)
    show ?thesis
    proof (cases "items s p")
      case None
      with Some show ?thesis by (simp add: Let_def)
    next
      case it: (Some it)
      let ?s2 = "?s1\<lparr>items := (items s)(p \<mapsto> it\<lparr>metadata := a\<rparr>)\<rparr>"
      have n2: "song_nodes ?s2 (song_id x) = None" using Cons.prems by simp
      show ?thesis
      proof (cases "IsCollectionMetadataEqual a (metadata it)")
        case True
        from Cons.IH[OF n2] Some it True show ?thesis by (simp add: Let_def)
      next
        case False
        show ?thesis
        proof (cases "parent it = None")
          case True
          with Some it False show ?thesis
            by (simp add: Let_def ItemToIndex_def same_except_record_refl)
        next
          case np: False
          let ?idx = "Index (row it) p"
          have "song_nodes (emit (dataChanged ?idx ?idx) ?s2) (song_id x) = None"
            using Cons.prems by simp
          from Cons.IH[OF this] Some it False np show ?thesis
            by (auto simp: Let_def ItemToIndex_def)
        qed
      qed
    qed
  qed
qed

lemma remove_song_nodes_untracked_step:
  "song_nodes s (song_id x) = None \<Longrightarrow>
   remove_song_nodes (x # ys) ps s = remove_song_nodes ys ps (refresh_song x s)"
  by (simp add: Let_def)

lemma remove_song_nodes_skip:
  assumes "song_nodes s (song_id x) = None"
  shows "rel_option (removal_related (song_id x))
           (remove_song_nodes (xs @ ys) ps s) (remove_song_nodes (xs @ x # ys) ps s)"
  using assms
proof (induction xs arbitrary: s ps)
  case Nil
  have "same_except_record (song_id x) s (refresh_song x s)"
    by (rule same_except_record_refresh)
  then have "rel_option (removal_related (song_id x))
               (remove_song_nodes ys ps s) (remove_song_nodes ys ps (refresh_song x s))"
    by (rule remove_song_nodes_rel)
  then show ?case
    using Nil by (simp add: remove_song_nodes_untracked_step)
next
  case (Cons a rest)
  let ?s1 = "refresh_song a s"
  show ?case
  proof (cases "song_nodes s (song_id a)")
    case None
    have "song_nodes ?s1 (song_id x) = None" using Cons.prems by simp
    from Cons.IH[OF this] None show ?thesis by (simp add: Let_def)
  next
    case (Some node)
    show ?thesis
    proof (cases "Option.bind (items s node) (\<lambda>nit. Option.bind (parent nit) (\<lambda>par.
        Option.bind (ItemToIndex s par) (\<lambda>idx.
          Option.bind (Delete par (row nit) (emit (beginRemoveRows idx (row nit) (row nit)) ?s1))
            (\<lambda>s2. Some (nit, par, s2)))))")
      case None
      with Some show ?thesis
        by (auto simp: Let_def ItemToIndex_def split: bind_splits option.splits)
    next
      case (Some y)
      then obtain nit par idx s2 where nit: "items s node = Some nit" and par: "parent nit = Some par"
        and idx: "ItemToIndex s par = Some idx"
        and s2: "Delete par (row nit) (emit (beginRemoveRows idx (row nit) (row nit)) ?s1) = Some s2"
        by (auto split: bind_splits)
      have idx1: "ItemToIndex ?s1 par = Some idx" using idx by (simp add: ItemToIndex_def)
      let ?s3 = "emit endRemoveRows (s2\<lparr>song_nodes := (song_nodes s2)(song_id a := None)\<rparr>)"
      have "song_nodes s2 = song_nodes s" using Delete_keeps(3)[OF s2] by simp
      then have "song_nodes ?s3 (song_id x) = None" using Cons.prems by simp
      from Cons.IH[OF this, of "if Some par \<noteq> root ?s1 then set_insert par ps else ps"]
        \<open>song_nodes s (song_id a) = Some node\<close> nit par idx1 s2
      show ?thesis by (simp add: Let_def)
    qed
  qed
qed

lemma RemoveSongs_skip:
  assumes "song_nodes s (song_id x) = None"
  shows "rel_option (same_except_record (song_id x))
           (RemoveSongs L (xs @ ys) s) (RemoveSongs L (xs @ x # ys) s)"
proof -
  note r = remove_song_nodes_skip[OF assms, of xs ys "[]"]
  show ?thesis
  proof (cases "remove_song_nodes (xs @ ys) [] s")
    case None
    with r show ?thesis by (simp add: RemoveSongs_def)
  next
    case (Some a)
    with r obtain b where b: "remove_song_nodes (xs @ x # ys) [] s = Some b"
      and rel: "removal_related (song_id x) a b"
      by (cases "remove_song_nodes (xs @ x # ys) [] s") auto
    from RemoveSongs_finish_rel[OF rel, of L] Some b show ?thesis
      by (simp add: RemoveSongs_def case_prod_beta)
  qed
qed

lemma one_song_model_untracked:
  "song_nodes (one_song_model tracked_Song) (song_id untracked_Song) = None"
  by (simp add: one_song_model_def CollectionModel_new_def untracked_Song_def tracked_Song_def example_Song_def)

lemma UpdateSongs_example_returns:
  "UpdateSongs example_Lib [untracked_Song, tracked_Song\<lparr>title := ''Aria''\<rparr>]
     (one_song_model tracked_Song) \<noteq> None"
  by (simp add: one_song_model_def CollectionModel_new_def untracked_Song_def tracked_Song_def
      example_Song_def refresh_song_def qLog_Error_def ItemToIndex_def blank_item_def Let_def)

lemma RemoveSongs_example_returns:
  "RemoveSongs example_Lib [untracked_Song, tracked_Song] (one_song_model tracked_Song) \<noteq> None"
  by (simp add: RemoveSongs_def one_song_model_def CollectionModel_new_def untracked_Song_def
      tracked_Song_def example_Song_def refresh_song_def ItemToIndex_def blank_item_def Let_def
      Delete_def emit_def prune_parents.simps numeral_2_eq_2)

text \<open>
  Claim C9. A song of a batch that has no leaf in the index is skipped when its turn
  comes: \<open>UpdateSongs\<close> logs an error and goes on with the rest of the batch,
  \<open>RemoveSongs\<close> goes on without a word (both refresh the stored record, if there is one).
  The batch with the untracked song and the batch without it end in the same model, up to
  the stored record of that song and the error log: both fail or both return, with the
  same items, lookup tables, notifications and stored records of every other song.
\<close>

theorem untracked_song_is_skipped:
  "song_nodes s (song_id x) = None \<longrightarrow>
     UpdateSongs L (x # ys) s =
       UpdateSongs L ys (qLog_Error ''Song does not exist in model'' (refresh_song x s)) \<and>
     rel_option (same_except_record (song_id x))
       (UpdateSongs L (xs @ ys) s) (UpdateSongs L (xs @ x # ys) s) \<and>
     remove_song_nodes (x # ys) ps s = remove_song_nodes ys ps (refresh_song x s) \<and>
     rel_option (same_except_record (song_id x))
       (RemoveSongs L (xs @ ys) s) (RemoveSongs L (xs @ x # ys) s)"
  using UpdateSongs_untracked_step UpdateSongs_skip remove_song_nodes_untracked_step RemoveSongs_skip
  by blast

theorem untracked_song_is_skipped_witness:
  "UpdateSongs example_Lib [untracked_Song, tracked_Song\<lparr>title := ''Aria''\<rparr>]
     (one_song_model tracked_Song) \<noteq> None \<and>
   rel_option (same_except_record (song_id untracked_Song))
     (UpdateSongs example_Lib [tracked_Song\<lparr>title := ''Aria''\<rparr>] (one_song_model tracked_Song))
     (UpdateSongs example_Lib [untracked_Song, tracked_Song\<lparr>title := ''Aria''\<rparr>]
        (one_song_model tracked_Song)) \<and>
   RemoveSongs example_Lib [untracked_Song, tracked_Song] (one_song_model tracked_Song) \<noteq> None \<and>
   rel_option (same_except_record (song_id untracked_Song))
     (RemoveSongs example_Lib [tracked_Song] (one_song_model tracked_Song))
     (RemoveSongs example_Lib [untracked_Song, tracked_Song] (one_song_model tracked_Song))"
  using untracked_song_is_skipped[where s = "one_song_model tracked_Song" and x = untracked_Song
      and L = example_Lib and xs = "[]" and ys = "[tracked_Song\<lparr>title := ''Aria''\<rparr>]"]
    untracked_song_is_skipped[where s = "one_song_model tracked_Song" and x = untracked_Song
      and L = example_Lib and xs = "[]" and ys = "[tracked_Song]"]
    one_song_model_untracked UpdateSongs_example_returns RemoveSongs_example_returns
  by simp

section \<open>Adding and removing does not always restore the tree\<close>

lemma QString_number_1994: "QString_number 1994 = ''1994''"
  by (simp add: QString_number_def nat_digits_1994)

lemma QString_number_1990: "QString_number 1990 = ''1990''"
  by (simp add: QString_number_def nat_digits_1990)

lemma toInt_1994_space: "toInt ''1994 '' = 1994"
  using toInt_SortTextForNumber[of 1994] by (simp add: SortTextForNumber_1994)

lemma toInt_1990: "toInt ''1990'' = 1990"
  by (simp add: toInt_def parse_int_def trimmed_def isSpace_def isDigit_def digits_value_def)

lemma toInt_prefixed: "toInt ''1990 1994 '' = 0"
  by (simp add: toInt_def parse_int_def trimmed_def isSpace_def isDigit_def)

lemma cdiv_1994: "cdiv 1994 10 * 10 = 1990" "cdiv 0 10 * 10 = 0"
  by (simp_all add: cdiv_def)

lemma DividerKey_Year_examples:
  "sort_text it = ''1994 '' \<Longrightarrow> DividerKey L GroupBy_Year it = ''1990''"
  "sort_text it = ''1990 1994 '' \<Longrightarrow> DividerKey L GroupBy_Year it = ''0000''"
  by (simp_all add: DividerKey.simps toInt_1994_space toInt_prefixed cdiv_1994
      SortTextForNumber_1990 SortTextForNumber_0)

lemma SortTextForSong_example: "SortTextForSong Song_of_1994 = ''000000file:///air.flac''"
  by (simp add: SortTextForSong_def Song_of_1994_def example_Song_def QString_number_def
      int32_def nat_digits_0 repeated_def eval_nat_numeral)

lemma Song_of_1994_fields:
  "year Song_of_1994 = 1994" "song_id Song_of_1994 = 7" "title Song_of_1994 = ''Air''"
  by (simp_all add: Song_of_1994_def)

lemma example_Lib_fields:
  "Matches example_Lib = (\<lambda>sg. True)" "tr example_Lib = (\<lambda>t. t)"
  "TitleWithCompilationArtist example_Lib = title" "Song_default example_Lib = example_Song"
  "is_compilation example_Lib = compilation"
  by (simp_all add: example_Lib_def)

lemma year_model_fields:
  "items (reset_model example_Lib year_grouping True) = [0 \<mapsto> blank_item example_Lib Type_Root None (- 1)]"
  "next_item (reset_model example_Lib year_grouping True) = 1"
  "root (reset_model example_Lib year_grouping True) = Some 0"
  "songs (reset_model example_Lib year_grouping True) = Map.empty"
  "song_nodes (reset_model example_Lib year_grouping True) = Map.empty"
  "container_nodes (reset_model example_Lib year_grouping True) = (\<lambda>i. [])"
  "divider_nodes (reset_model example_Lib year_grouping True) = Map.empty"
  "group_by (reset_model example_Lib year_grouping True) = year_grouping"
  "separate_albums_by_grouping (reset_model example_Lib year_grouping True) = False"
  "sort_skips_articles (reset_model example_Lib year_grouping True) = True"
  "show_dividers (reset_model example_Lib year_grouping True) = True"
  "signals (reset_model example_Lib year_grouping True) = []"
  by (simp_all add: reset_model_def CollectionModel_new_def)

lemma year_grouping_at:
  "Grouping_at year_grouping 0 = GroupBy_Year" "Grouping_at year_grouping 1 = GroupBy_None"
  by (simp_all add: Grouping_at_def year_grouping_def)

lemma add_1994:
  "AddSongs example_Lib [Song_of_1994] (reset_model example_Lib year_grouping True) = Some year_model_added"
  by (simp add: AddSong_def find_containers.simps ItemFromSong_def InitItem_def
      begin_insert_at_end_def ItemToIndex_def new_CollectionItem_def update_item_def
      FinishItem_def year_model_fields year_grouping_at blank_item_def emit_def Let_def
      IsArtistGroupBy_def no_positive_def DividerDisplayText_def QString_number_1994
      QString_number_1990 toInt_1990 SortTextForNumber_1994 DividerKey_Year_examples
      SortTextForSong_example TextOrUnknown_def Song_of_1994_fields example_Lib_fields
      year_model_added_def eval_nat_numeral)

lemma year_model_added_fields:
  "items year_model_added =
          [0 \<mapsto> (blank_item example_Lib Type_Root None (- 1))\<lparr>children := [1, 2]\<rparr>,
           2 \<mapsto> (blank_item example_Lib Type_Divider (Some 0) 1)
                   \<lparr>key := ''1990'', display_text := ''1990'', sort_text := ''1990  ''\<rparr>,
           1 \<mapsto> (blank_item example_Lib Type_Container (Some 0) 0)
                   \<lparr>children := [3], key := ''1994'', display_text := ''1994'',
                    sort_text := ''1990 1994 '', metadata := example_Song\<lparr>year := 1994\<rparr>,
                    container_level := 0\<rparr>,
           3 \<mapsto> (blank_item example_Lib Type_Song (Some 1) 0)
                   \<lparr>key := ''1994-Air'', display_text := ''Air'',
                    sort_text := ''000000file:///air.flac'', metadata := Song_of_1994\<rparr>]"
  "next_item year_model_added = 4"
  "root year_model_added = Some 0"
  "songs year_model_added = [7 \<mapsto> Song_of_1994]"
  "song_nodes year_model_added = [7 \<mapsto> 3]"
  "container_nodes year_model_added = (\<lambda>i. [])(0 := [(''1994'', 1)])"
  "divider_nodes year_model_added = [''1990'' \<mapsto> 2]"
  "group_by year_model_added = year_grouping"
  by (simp_all add: year_model_added_def year_model_fields)

lemma remove_1994:
  "map_option remaining_nodes (RemoveSongs example_Lib [Song_of_1994] year_model_added) =
     Some ([(0, Type_Root), (2, Type_Divider)], [2], Some 2)"
  by (simp add: RemoveSongs_def refresh_song_def ItemToIndex_def Delete_def emit_def Let_def
      prune_parents.simps set_insert_def update_item_def year_model_added_fields year_grouping_at
      blank_item_def Song_of_1994_fields DividerKey_Year_examples eval_nat_numeral
      remaining_nodes_def)

lemma remaining_nodes_year_model:
  "remaining_nodes (reset_model example_Lib year_grouping True) = ([(0, Type_Root)], [], None)"
  by (simp add: remaining_nodes_def year_model_fields blank_item_def)

lemma collision_model_fields:
  "items (reset_model example_Lib artist_album_grouping False) = [0 \<mapsto> blank_item example_Lib Type_Root None (- 1)]"
  "next_item (reset_model example_Lib artist_album_grouping False) = 1"
  "root (reset_model example_Lib artist_album_grouping False) = Some 0"
  "songs (reset_model example_Lib artist_album_grouping False) = Map.empty"
  "song_nodes (reset_model example_Lib artist_album_grouping False) = Map.empty"
  "container_nodes (reset_model example_Lib artist_album_grouping False) = (\<lambda>i. [])"
  "divider_nodes (reset_model example_Lib artist_album_grouping False) = Map.empty"
  "group_by (reset_model example_Lib artist_album_grouping False) = artist_album_grouping"
  "separate_albums_by_grouping (reset_model example_Lib artist_album_grouping False) = False"
  "sort_skips_articles (reset_model example_Lib artist_album_grouping False) = True"
  "show_dividers (reset_model example_Lib artist_album_grouping False) = False"
  "signals (reset_model example_Lib artist_album_grouping False) = []"
  by (simp_all add: reset_model_def CollectionModel_new_def)

lemma artist_album_grouping_at:
  "Grouping_at artist_album_grouping 0 = GroupBy_Artist"
  "Grouping_at artist_album_grouping 1 = GroupBy_Album"
  "Grouping_at artist_album_grouping 2 = GroupBy_None"
  by (simp_all add: Grouping_at_def artist_album_grouping_def)

lemma collision_song_fields:
  "song_id Song_ab_c = 1" "title Song_ab_c = ''x''" "artist Song_ab_c = ''a-b''" "album Song_ab_c = ''c''"
  "album_id Song_ab_c = []" "grouping Song_ab_c = []" "compilation Song_ab_c = False"
  "song_id Song_a_bc = 2" "title Song_a_bc = ''y''" "artist Song_a_bc = ''a''" "album Song_a_bc = ''b-c''"
  "album_id Song_a_bc = []" "grouping Song_a_bc = []" "compilation Song_a_bc = False"
  by (simp_all add: Song_ab_c_def Song_a_bc_def example_Song_def)

lemma add_remove_collision:
  "map_option remaining_nodes
     (Option.bind (AddSongs example_Lib [Song_ab_c, Song_a_bc] (reset_model example_Lib artist_album_grouping False))
        (RemoveSongs example_Lib [Song_ab_c, Song_a_bc])) =
     Some ([(0, Type_Root), (4, Type_Container)], [4], None)"
  by (simp add: AddSong_def find_containers.simps ItemFromSong_def InitItem_def
      begin_insert_at_end_def ItemToIndex_def new_CollectionItem_def update_item_def
      FinishItem_def collision_model_fields artist_album_grouping_at blank_item_def emit_def Let_def
      IsArtistGroupBy_def IsAlbumGroupBy_def TextOrUnknown_def album_key_suffix_def
      collision_song_fields example_Lib_fields
      RemoveSongs_def refresh_song_def Delete_def prune_parents.simps set_insert_def
      eval_nat_numeral remaining_nodes_def)

text \<open>
  Claim C3 on two inputs. Grouped by year with dividers shown, adding a song of 1994 to the
  empty tree and removing it again leaves the divider "1990" under the root: the removal
  computes the divider key of the emptied container from its sort text "1990 1994 ", which
  \<open>FinishItem\<close> had prefixed with the key, gets "0000" and finds no such divider. Grouped by
  artist and album, adding the songs of artist "a-b", album "c" and of artist "a", album
  "b-c" and removing both leaves the container of artist "a": both albums have the key
  "a-b-c", so the second song went under the album of the first and its artist container
  stayed empty from the start.
\<close>

theorem add_then_remove_leaves_nodes_behind:
  "remaining_nodes (reset_model example_Lib year_grouping True) = ([(0, Type_Root)], [], None) \<and>
   AddSongs example_Lib [Song_of_1994] (reset_model example_Lib year_grouping True)
     = Some year_model_added \<and>
   map_option remaining_nodes (RemoveSongs example_Lib [Song_of_1994] year_model_added)
     = Some ([(0, Type_Root), (2, Type_Divider)], [2], Some 2) \<and>
   map_option remaining_nodes
     (Option.bind (AddSongs example_Lib [Song_ab_c, Song_a_bc]
                     (reset_model example_Lib artist_album_grouping False))
        (RemoveSongs example_Lib [Song_ab_c, Song_a_bc]))
     = Some ([(0, Type_Root), (4, Type_Container)], [4], None)"
  using remaining_nodes_year_model add_1994 remove_1994 add_remove_collision by simp

section \<open>Two songs without grouping\<close>

lemma nat_digits_1001: "nat_digits 1001 = ''1001''"
  by code_simp

lemma Song_x_fields:
  "song_id Song_x1 = 1" "title Song_x1 = ''p''" "disc Song_x1 = 1" "track Song_x1 = 1" "url Song_x1 = ''x''"
  "song_id Song_x2 = 2" "title Song_x2 = ''q''" "disc Song_x2 = 1" "track Song_x2 = 1" "url Song_x2 = ''x''"
  by (simp_all add: Song_x1_def Song_x2_def)

lemma SortTextForSong_x:
  "disc sg = 1 \<Longrightarrow> track sg = 1 \<Longrightarrow> SortTextForSong sg = ''001001'' @ url sg"
proof -
  assume a: "disc sg = 1" "track sg = 1"
  have "int32 (int32 (max 0 (disc sg) * 1000) + max 0 (track sg)) = 1001"
    using a by (simp add: int32_def)
  then have "QString_number (int32 (int32 (max 0 (disc sg) * 1000) + max 0 (track sg))) = ''1001''"
    by (simp add: QString_number_def nat_digits_1001)
  moreover have "repeated ''0'' (6 - int (length ''1001'')) = ''00''"
    by (simp add: repeated_def eval_nat_numeral)
  ultimately show ?thesis by (simp add: SortTextForSong_def)
qed

lemma no_grouping_model_fields:
  "items (reset_model example_Lib no_grouping False) = [0 \<mapsto> blank_item example_Lib Type_Root None (- 1)]"
  "next_item (reset_model example_Lib no_grouping False) = 1"
  "root (reset_model example_Lib no_grouping False) = Some 0"
  "songs (reset_model example_Lib no_grouping False) = Map.empty"
  "song_nodes (reset_model example_Lib no_grouping False) = Map.empty"
  "container_nodes (reset_model example_Lib no_grouping False) = (\<lambda>i. [])"
  "divider_nodes (reset_model example_Lib no_grouping False) = Map.empty"
  "group_by (reset_model example_Lib no_grouping False) = no_grouping"
  "separate_albums_by_grouping (reset_model example_Lib no_grouping False) = False"
  "sort_skips_articles (reset_model example_Lib no_grouping False) = True"
  "show_dividers (reset_model example_Lib no_grouping False) = False"
  "signals (reset_model example_Lib no_grouping False) = []"
  by (simp_all add: reset_model_def CollectionModel_new_def)

lemma no_grouping_at: "Grouping_at no_grouping 0 = GroupBy_None"
  by (simp add: Grouping_at_def no_grouping_def)

lemma add_two_songs:
  "AddSongs example_Lib [Song_x1, Song_x2] (reset_model example_Lib no_grouping False)
     = Some two_song_model"
  by (simp add: AddSong_def find_containers.simps ItemFromSong_def InitItem_def
      begin_insert_at_end_def ItemToIndex_def new_CollectionItem_def update_item_def
      FinishItem_def no_grouping_model_fields no_grouping_at blank_item_def emit_def Let_def
      TextOrUnknown_def Song_x_fields SortTextForSong_x example_Lib_fields
      two_song_model_def eval_nat_numeral)

lemma two_song_model_fields:
  "items two_song_model =
          [1 \<mapsto> (blank_item example_Lib Type_Song (Some 0) 0)
                   \<lparr>key := ''p'', display_text := ''p'', sort_text := ''001001x'',
                    metadata := Song_x1\<rparr>,
           0 \<mapsto> (blank_item example_Lib Type_Root None (- 1))\<lparr>children := [1, 2]\<rparr>,
           2 \<mapsto> (blank_item example_Lib Type_Song (Some 0) 1)
                   \<lparr>key := ''q'', display_text := ''q'', sort_text := ''001001x'',
                    metadata := Song_x2\<rparr>]"
  "songs two_song_model = [1 \<mapsto> Song_x1, 2 \<mapsto> Song_x2]"
  "song_nodes two_song_model = [1 \<mapsto> 1, 2 \<mapsto> 2]"
  "signals two_song_model =
          [beginInsertRows InvalidIndex 0 0, endInsertRows,
           beginInsertRows InvalidIndex 1 1, endInsertRows]"
  by (simp_all add: two_song_model_def)

section \<open>Siblings with the same sort text\<close>

lemma artist_item_ACDC:
  "sort_text (artist_item ''AC/DC'') = ''acdc''" "sort_text (artist_item ''ACDC'') = ''acdc''"
  "key (artist_item ''AC/DC'') = ''AC/DC''" "key (artist_item ''ACDC'') = ''ACDC''"
  by code_simp+

lemma update_second_song:
  "map_option (locations_and_sort_texts [1, 2])
     (UpdateSongs example_Lib [Song_x2\<lparr>url := ''y''\<rparr>] two_song_model)
     = Some [Some (''x'', ''001001x''), Some (''y'', ''001001x'')]"
  by (simp add: two_song_model_fields refresh_song_def Song_x_fields Let_def
      IsCollectionMetadataEqual_def blank_item_def locations_and_sort_texts_def)

lemma ItemFromSong_leaf_sort_text:
  assumes "ItemFromSong L GroupBy_None sep True False par sg (- 1) s = Some (p, s')"
  shows "\<exists>it. items s' p = Some it \<and> metadata it = sg \<and> sort_text it = SortTextForSong sg"
  using assms
  by (auto simp: ItemFromSong_def InitItem_def new_CollectionItem_def update_item_def
      FinishItem_def begin_insert_at_end_def split: bind_splits option.splits if_splits prod.splits)

lemma AddSong_leaf_sort_text:
  assumes "AddSong L sg s = Some s'" and "Matches L sg" and "song_nodes s (song_id sg) = None"
  shows "\<exists>p it. song_nodes s' (song_id sg) = Some p \<and> items s' p = Some it \<and>
           metadata it = sg \<and> sort_text it = SortTextForSong sg"
proof -
  from assms obtain r c s2 leaf s3 where
    "ItemFromSong L GroupBy_None (separate_albums_by_grouping s2) True False c sg (- 1) s2
       = Some (leaf, s3)"
    and s': "s' = s3\<lparr>song_nodes := (song_nodes s3)(song_id sg \<mapsto> leaf)\<rparr>"
    by (auto simp: AddSong_def Let_def split: bind_splits)
  from ItemFromSong_leaf_sort_text [OF this(1)] s' show ?thesis by auto
qed

text \<open>
  Claim C5, as stated, fails in three places. The two albums titled "10" and "9" get sort
  texts that both parse fully as integers, 100000 and 90000, and \<open>CompareItems\<close> puts "10"
  first, as strings compare, where the numeric comparison of the claim would put "9"
  first. The order is not total on siblings: the containers of the artists "AC/DC" and
  "ACDC" have different keys and the same sort text "acdc", and neither comes before the
  other. And the tie of two song leaves is not always broken by the location: two songs
  with disc 1, track 1 and the location "x" are added, the second is updated to the
  location "y", and both leaves still have the sort text "001001x".
\<close>

theorem CompareItems_numeric_counterexample:
  "sort_text (album_item ''10'') = ''100000'' \<and>
   sort_text (album_item ''9'') = ''90000'' \<and>
   parse_int (sort_text (album_item ''10'')) = Some 100000 \<and>
   parse_int (sort_text (album_item ''9'')) = Some 90000 \<and>
   CompareItems (album_item ''10'') (album_item ''9'') \<and>
   \<not> CompareItems_spec (album_item ''10'') (album_item ''9'') \<and>
   key (artist_item ''AC/DC'') = ''AC/DC'' \<and> key (artist_item ''ACDC'') = ''ACDC'' \<and>
   sort_text (artist_item ''AC/DC'') = ''acdc'' \<and> sort_text (artist_item ''ACDC'') = ''acdc'' \<and>
   \<not> CompareItems (artist_item ''AC/DC'') (artist_item ''ACDC'') \<and>
   \<not> CompareItems (artist_item ''ACDC'') (artist_item ''AC/DC'') \<and>
   map_option (locations_and_sort_texts [1, 2])
     (Option.bind (AddSongs example_Lib [Song_x1, Song_x2] (reset_model example_Lib no_grouping False))
        (UpdateSongs example_Lib [Song_x2\<lparr>url := ''y''\<rparr>]))
     = Some [Some (''x'', ''001001x''), Some (''y'', ''001001x'')]"
  unfolding add_two_songs Option.bind.simps update_second_song
  by (simp add: CompareItems_string CompareItems_spec_def sort_text_album_item
      parse_int_100000 parse_int_90000 less_char_def artist_item_ACDC)

text \<open>
  Claim C5, amended. \<open>CompareItems\<close> compares the sort texts of the two items as strings
  in every case (the variant of a sort text holds a string, so the integer branch is not
  taken). The comparison is irreflexive, asymmetric and transitive, and of two items one
  comes first unless their sort texts are equal. The leaf that \<open>AddSongs\<close> creates for a
  song has, when it is created, the sort text \<open>SortTextForSong\<close> of that song, which ends
  in its location, so that two leaves are created with different sort texts when their
  songs have the same disc and track numbers and different locations.
\<close>

theorem CompareItems_is_string_order:
  "CompareItems a b = (sort_text a < sort_text b) \<and>
   \<not> CompareItems a a \<and>
   (CompareItems a b \<longrightarrow> \<not> CompareItems b a) \<and>
   (CompareItems a b \<and> CompareItems b c \<longrightarrow> CompareItems a c) \<and>
   (CompareItems a b \<or> CompareItems b a \<or> sort_text a = sort_text b) \<and>
   (AddSong L sg s = Some s' \<and> Matches L sg \<and> song_nodes s (song_id sg) = None \<longrightarrow>
      (\<exists>p it. song_nodes s' (song_id sg) = Some p \<and> items s' p = Some it \<and>
         metadata it = sg \<and> sort_text it = SortTextForSong sg)) \<and>
   (disc sa = disc sb \<and> track sa = track sb \<and> url sa \<noteq> url sb \<longrightarrow>
      SortTextForSong sa \<noteq> SortTextForSong sb)"
  using SortTextForSong_inj_url[of sa sb] AddSong_leaf_sort_text[of L sg s s']
  by (auto simp: CompareItems_string)

theorem CompareItems_is_string_order_witness:
  "CompareItems (album_item ''10'') (album_item ''9'') \<and>
   \<not> CompareItems (album_item ''9'') (album_item ''10'') \<and>
   \<not> CompareItems (album_item ''10'') (album_item ''10'') \<and>
   CompareItems (album_item ''10'') (album_item ''95'') \<and>
   (\<exists>s' p it. AddSong example_Lib Song_x1 (reset_model example_Lib no_grouping False) = Some s' \<and>
      song_nodes s' 1 = Some p \<and> items s' p = Some it \<and> sort_text it = ''001001x'') \<and>
   SortTextForSong Song_x1 \<noteq> SortTextForSong (Song_x1\<lparr>url := ''y''\<rparr>)"
proof -
  let ?s = "reset_model example_Lib no_grouping False"
  obtain s' where s': "AddSong example_Lib Song_x1 ?s = Some s'"
    by (cases "AddSong example_Lib Song_x1 ?s")
      (simp_all add: AddSong_def find_containers.simps ItemFromSong_def InitItem_def
        begin_insert_at_end_def ItemToIndex_def new_CollectionItem_def update_item_def
        FinishItem_def no_grouping_model_fields no_grouping_at blank_item_def Let_def
        example_Lib_fields)
  from CompareItems_is_string_order[of "album_item ''10''" "album_item ''9''" "album_item ''95''"
      example_Lib Song_x1 ?s s' Song_x1 "Song_x1\<lparr>url := ''y''\<rparr>"] s'
  have 1: "\<exists>p it. song_nodes s' 1 = Some p \<and> items s' p = Some it \<and> sort_text it = ''001001x''"
    and 2: "SortTextForSong Song_x1 \<noteq> SortTextForSong (Song_x1\<lparr>url := ''y''\<rparr>)"
    by (auto simp: example_Lib_fields no_grouping_model_fields Song_x_fields SortTextForSong_x)
  from 1 2 s' show ?thesis
    using CompareItems_is_string_order[of "album_item ''10''" "album_item ''9''" "album_item ''95''"
      example_Lib Song_x1 ?s s' example_Song example_Song]
      CompareItems_is_string_order[of "album_item ''10''" "album_item ''10''"]
    by (simp add: CompareItems_string sort_text_album_item less_char_def)
qed

section \<open>Divider keys of finished containers\<close>










section \<open>The notifications of a batch of updates\<close>






section \<open>The tree that AddSongs builds\<close>

lemma added_old:
  assumes "added par ty lvl link s s'" and "items s q = Some qit" and "q < next_item s"
  shows "\<exists>qit'. items s' q = Some qit' \<and> type qit' = type qit \<and> parent qit' = parent qit \<and>
           container_level qit' = container_level qit \<and> metadata qit' = metadata qit \<and>
           (if q = par then children qit' = children qit @ [next_item s]
            else children qit' = children qit) \<and>
           (if q = par \<and> link then compilation_artist_node qit' = Some (next_item s)
            else compilation_artist_node qit' = compilation_artist_node qit)"
  using assms unfolding added_def by (cases "q = par") auto

lemma added_new:
  assumes "added par ty lvl link s s'"
  shows "\<exists>nit. items s' (next_item s) = Some nit \<and> type nit = ty \<and> parent nit = Some par \<and>
           children nit = [] \<and> container_level nit = lvl \<and> compilation_artist_node nit = None"
  using assms unfolding added_def by auto

lemma added_cases:
  assumes "added par ty lvl link s s'" and "items s' q = Some qit'"
  shows "q = next_item s \<or> (\<exists>qit. items s q = Some qit)"
  using assms unfolding added_def by (auto split: if_splits)

lemma added_fields:
  assumes "added par ty lvl link s s'"
  shows "next_item s' = Suc (next_item s)" "root s' = root s" "song_nodes s' = song_nodes s"
    "container_nodes s' = container_nodes s" "songs s' = songs s"
  using assms unfolding added_def by auto

lemma added_parent:
  assumes "added par ty lvl link s s'"
  shows "\<exists>pit. items s par = Some pit"
  using assms unfolding added_def by auto

lemma tree_ok_live:
  assumes "tree_ok s" and "items s p = Some it"
  shows "p < next_item s" and "node_ok s p it"
  using assms unfolding tree_ok_def by auto

lemma tree_ok_added:
  assumes ok: "tree_ok s" and ad: "added par ty lvl link s s'"
    and par: "items s par = Some pit"
    and cont: "ty = Type_Container \<Longrightarrow> 0 \<le> lvl \<and> lvl \<le> 2 \<and> container_level pit = lvl - 1"
    and hold: "ty = Type_Container \<or> ty = Type_Song \<Longrightarrow> holds_children pit"
    and noroot: "ty \<noteq> Type_Root"
    and lnk: "link \<Longrightarrow> ty = Type_Container \<and> lvl = container_level pit + 1"
  shows "tree_ok s'"
proof -
  let ?n = "next_item s"
  note old = added_old [OF ad]
  note new = added_new [OF ad]
  note flds = added_fields [OF ad]
  have parlt: "par < ?n" using tree_ok_live(1) [OF ok par] .
  have rootp: "\<exists>r rit. root s' = Some r \<and> items s' r = Some rit \<and> type rit = Type_Root"
  proof -
    from ok obtain r rit where r: "root s = Some r" "items s r = Some rit" "type rit = Type_Root"
      unfolding tree_ok_def by auto
    from old [OF r(2) tree_ok_live(1) [OF ok r(2)]] r flds show ?thesis by auto
  qed
  have nodes: "p < next_item s' \<and> node_ok s' p it'" if it': "items s' p = Some it'" for p it'
  proof (cases "p = ?n")
    case True
    from new it' True have nit: "type it' = ty" "parent it' = Some par" "children it' = []"
      "container_level it' = lvl" "compilation_artist_node it' = None" by auto
    from old [OF par parlt] obtain pit' where pit': "items s' par = Some pit'"
      "type pit' = type pit" "container_level pit' = container_level pit"
      "children pit' = children pit @ [?n]" by auto
    have "node_ok s' p it'"
      unfolding node_ok_def using nit pit' True cont hold noroot
      by (auto simp: holds_children_def)
    then show ?thesis using True flds by simp
  next
    case False
    with added_cases [OF ad it'] obtain it where it: "items s p = Some it" by auto
    have plt: "p < ?n" and nok: "node_ok s p it" using tree_ok_live [OF ok it] by auto
    from old [OF it plt] it' have rel: "type it' = type it" "parent it' = parent it"
      "container_level it' = container_level it"
      "if p = par then children it' = children it @ [?n] else children it' = children it"
      "if p = par \<and> link then compilation_artist_node it' = Some ?n
       else compilation_artist_node it' = compilation_artist_node it" by auto
    have live: "\<exists>qit'. items s' q = Some qit' \<and> type qit' = type qit \<and> parent qit' = parent qit \<and>
        container_level qit' = container_level qit \<and> set (children qit) \<subseteq> set (children qit')"
      if "items s q = Some qit" for q qit
      using old [OF that tree_ok_live(1) [OF ok that]] by (auto split: if_splits)
    have c1: "\<forall>c \<in> set (children it'). \<exists>cit. items s' c = Some cit \<and> parent cit = Some p"
    proof
      fix c assume c: "c \<in> set (children it')"
      show "\<exists>cit. items s' c = Some cit \<and> parent cit = Some p"
      proof (cases "c = ?n")
        case True
        have "?n \<notin> set (children it)"
        proof
          assume "?n \<in> set (children it)"
          with nok obtain cit where "items s ?n = Some cit" unfolding node_ok_def by blast
          from tree_ok_live(1) [OF ok this] show False by simp
        qed
        with c rel(4) True have "p = par" by (auto split: if_splits)
        with new True show ?thesis by auto
      next
        case False
        with c rel(4) have "c \<in> set (children it)" by (auto split: if_splits)
        with nok obtain cit where "items s c = Some cit" "parent cit = Some p"
          unfolding node_ok_def by auto
        with live [OF this(1)] show ?thesis by auto
      qed
    qed
    have c2: "type it' = Type_Container \<longrightarrow> 0 \<le> container_level it' \<and> container_level it' \<le> 2"
      using nok rel unfolding node_ok_def by auto
    have c3: "type it' = Type_Container \<or> type it' = Type_Song \<longrightarrow>
         (\<exists>par pit. parent it' = Some par \<and> items s' par = Some pit \<and> p \<in> set (children pit) \<and>
            holds_children pit \<and>
            (type it' = Type_Container \<longrightarrow> container_level pit = container_level it' - 1))"
    proof
      assume "type it' = Type_Container \<or> type it' = Type_Song"
      with nok rel obtain q qit where q: "parent it = Some q" "items s q = Some qit"
        "p \<in> set (children qit)" "holds_children qit"
        "type it = Type_Container \<longrightarrow> container_level qit = container_level it - 1"
        unfolding node_ok_def by auto
      from live [OF q(2)] q rel show "\<exists>par pit. parent it' = Some par \<and> items s' par = Some pit \<and>
            p \<in> set (children pit) \<and> holds_children pit \<and>
            (type it' = Type_Container \<longrightarrow> container_level pit = container_level it' - 1)"
        by (auto simp: holds_children_def)
    qed
    have c4: "\<forall>c. compilation_artist_node it' = Some c \<longrightarrow>
         (\<exists>cit. items s' c = Some cit \<and> type cit = Type_Container \<and>
            container_level cit = container_level it' + 1)"
    proof (intro allI impI)
      fix c assume c: "compilation_artist_node it' = Some c"
      show "\<exists>cit. items s' c = Some cit \<and> type cit = Type_Container \<and>
            container_level cit = container_level it' + 1"
      proof (cases "p = par \<and> link")
        case True
        with c rel(5) have "c = ?n" by auto
        with new lnk True rel(3) it par show ?thesis by auto
      next
        case False
        with c rel(5) have "compilation_artist_node it = Some c" by (auto split: if_splits)
        with nok obtain cit where "items s c = Some cit" "type cit = Type_Container"
          "container_level cit = container_level it + 1" unfolding node_ok_def by auto
        with live [OF this(1)] rel(3) show ?thesis by auto
      qed
    qed
    have c5: "type it' = Type_Root \<longrightarrow> root s' = Some p \<and> container_level it' = - 1"
      using nok rel flds unfolding node_ok_def by auto
    from c1 c2 c3 c4 c5 have "node_ok s' p it'" unfolding node_ok_def by blast
    with plt flds show ?thesis by simp
  qed
  from rootp nodes show ?thesis unfolding tree_ok_def by blast
qed

lemma tables_ok_added:
  assumes ok: "tree_ok s" and t: "tables_ok s" and ad: "added par ty lvl link s s'"
  shows "tables_ok s'"
  unfolding tables_ok_def
proof (intro allI impI)
  fix i k c assume "i < 3 \<and> map_of (container_nodes s' i) k = Some c"
  with added_fields [OF ad] t obtain it where it: "items s c = Some it" "type it = Type_Container"
    "container_level it = int i" unfolding tables_ok_def by metis
  from added_old [OF ad it(1) tree_ok_live(1) [OF ok it(1)]] it
  show "\<exists>it. items s' c = Some it \<and> type it = Type_Container \<and> container_level it = int i"
    by auto
qed

lemma songs_ok_added:
  assumes ok: "tree_ok s" and t: "songs_ok s" and ad: "added par ty lvl link s s'"
    and ty: "ty \<noteq> Type_Song"
  shows "songs_ok s'"
  unfolding songs_ok_def
proof (intro conjI allI impI)
  fix k p assume "song_nodes s' k = Some p"
  with added_fields [OF ad] t obtain it where it: "items s p = Some it" "type it = Type_Song"
    "song_id (metadata it) = k" unfolding songs_ok_def by auto
  from added_old [OF ad it(1) tree_ok_live(1) [OF ok it(1)]] it
  show "\<exists>it. items s' p = Some it \<and> type it = Type_Song \<and> song_id (metadata it) = k" by auto
next
  fix p it' assume a: "items s' p = Some it' \<and> type it' = Type_Song"
  with added_new [OF ad] ty have "p \<noteq> next_item s" by auto
  with added_cases [OF ad] a obtain it where it: "items s p = Some it" by blast
  from added_old [OF ad it tree_ok_live(1) [OF ok it]] a
  have "type it = Type_Song" "metadata it' = metadata it" by auto
  with t it added_fields [OF ad] show "song_nodes s' (song_id (metadata it')) = Some p"
    unfolding songs_ok_def by auto
qed

lemma songs_ok_added_song:
  assumes ok: "tree_ok s" and t: "songs_ok s" and ad: "added par Type_Song lvl link s s'"
    and nit: "items s' (next_item s) = Some nit" "metadata nit = sg"
    and fresh: "song_nodes s (song_id sg) = None"
  shows "songs_ok (s'\<lparr>song_nodes := (song_nodes s')(song_id sg \<mapsto> next_item s)\<rparr>)"
  unfolding songs_ok_def
proof (intro conjI allI impI)
  fix k p
  assume a: "song_nodes (s'\<lparr>song_nodes := (song_nodes s')(song_id sg \<mapsto> next_item s)\<rparr>) k = Some p"
  show "\<exists>it. items (s'\<lparr>song_nodes := (song_nodes s')(song_id sg \<mapsto> next_item s)\<rparr>) p = Some it \<and>
          type it = Type_Song \<and> song_id (metadata it) = k"
  proof (cases "k = song_id sg")
    case True
    with a nit added_new [OF ad] show ?thesis by auto
  next
    case False
    with a added_fields [OF ad] t obtain it where it: "items s p = Some it" "type it = Type_Song"
      "song_id (metadata it) = k" unfolding songs_ok_def by auto
    from added_old [OF ad it(1) tree_ok_live(1) [OF ok it(1)]] it show ?thesis by auto
  qed
next
  fix p it'
  assume a: "items (s'\<lparr>song_nodes := (song_nodes s')(song_id sg \<mapsto> next_item s)\<rparr>) p = Some it' \<and>
             type it' = Type_Song"
  show "song_nodes (s'\<lparr>song_nodes := (song_nodes s')(song_id sg \<mapsto> next_item s)\<rparr>)
          (song_id (metadata it')) = Some p"
  proof (cases "p = next_item s")
    case True
    with a nit show ?thesis by auto
  next
    case False
    with added_cases [OF ad] a obtain it where it: "items s p = Some it" by auto
    from added_old [OF ad it tree_ok_live(1) [OF ok it]] a
    have "type it = Type_Song" "metadata it' = metadata it" by auto
    with t it have "song_nodes s (song_id (metadata it')) = Some p" unfolding songs_ok_def by auto
    with fresh added_fields [OF ad] show ?thesis by auto
  qed
qed

lemma tracked_simps [simp]:
  "tracked (emit sg s) = tracked s"
  "tracked (s\<lparr>divider_nodes := d\<rparr>) = tracked s"
  "tracked (s\<lparr>signals := g\<rparr>) = tracked s"
  by (simp_all add: tracked_def emit_def)

lemma added_tracked:
  assumes "added par ty lvl link s s1" and "tracked s2 = tracked s1"
  shows "added par ty lvl link s s2"
  using assms unfolding added_def tracked_def by simp

lemma addedI:
  assumes "items s par = Some pit"
    and "items s' = (items s)(par \<mapsto> pit', next_item s \<mapsto> nit)"
    and "type pit' = type pit" "parent pit' = parent pit"
      "children pit' = children pit @ [next_item s]"
      "container_level pit' = container_level pit"
      "compilation_artist_node pit' =
         (if link then Some (next_item s) else compilation_artist_node pit)"
      "metadata pit' = metadata pit"
    and "type nit = ty" "parent nit = Some par" "children nit = []"
      "container_level nit = lvl" "compilation_artist_node nit = None"
    and "next_item s' = Suc (next_item s)" "root s' = root s" "song_nodes s' = song_nodes s"
      "container_nodes s' = container_nodes s" "songs s' = songs s"
  shows "added par ty lvl link s s'"
  unfolding added_def using assms by blast

lemma added_update_new:
  assumes ad: "added par ty lvl link s s1" and nit: "items s1 (next_item s) = Some nit"
    and f: "type (f nit) = type nit" "parent (f nit) = parent nit" "children (f nit) = children nit"
      "compilation_artist_node (f nit) = None"
  shows "added par ty (container_level (f nit)) link s (s1\<lparr>items := (items s1)(next_item s \<mapsto> f nit)\<rparr>)"
proof -
  from ad obtain pit pit' nit0 where a: "items s par = Some pit"
    "items s1 = (items s)(par \<mapsto> pit', next_item s \<mapsto> nit0)"
    "type pit' = type pit" "parent pit' = parent pit"
    "children pit' = children pit @ [next_item s]"
    "container_level pit' = container_level pit"
    "compilation_artist_node pit' = (if link then Some (next_item s) else compilation_artist_node pit)"
    "metadata pit' = metadata pit"
    "type nit0 = ty" "parent nit0 = Some par" "children nit0 = []"
    "container_level nit0 = lvl" "compilation_artist_node nit0 = None"
    and b: "next_item s1 = Suc (next_item s)" "root s1 = root s" "song_nodes s1 = song_nodes s"
      "container_nodes s1 = container_nodes s" "songs s1 = songs s"
    unfolding added_def by blast
  from a(2) nit have eq: "nit0 = nit" by simp
  have "items (s1\<lparr>items := (items s1)(next_item s \<mapsto> f nit)\<rparr>)
          = (items s)(par \<mapsto> pit', next_item s \<mapsto> f nit)"
    using a(2) by simp
  with a b f eq show ?thesis
    by (intro addedI [where pit = pit and pit' = pit' and nit = "f nit"]) simp_all
qed

lemma added_link:
  assumes ad: "added par ty lvl False s s1" and ne: "par \<noteq> next_item s"
    and pit1: "items s1 par = Some pit1"
  shows "added par ty lvl True s
           (s1\<lparr>items := (items s1)(par \<mapsto> pit1\<lparr>compilation_artist_node := Some (next_item s)\<rparr>)\<rparr>)"
proof -
  from ad obtain pit pit' nit0 where a: "items s par = Some pit"
    "items s1 = (items s)(par \<mapsto> pit', next_item s \<mapsto> nit0)"
    "type pit' = type pit" "parent pit' = parent pit"
    "children pit' = children pit @ [next_item s]"
    "container_level pit' = container_level pit"
    "metadata pit' = metadata pit"
    "type nit0 = ty" "parent nit0 = Some par" "children nit0 = []"
    "container_level nit0 = lvl" "compilation_artist_node nit0 = None"
    and b: "next_item s1 = Suc (next_item s)" "root s1 = root s" "song_nodes s1 = song_nodes s"
      "container_nodes s1 = container_nodes s" "songs s1 = songs s"
    unfolding added_def by auto
  from a(2) pit1 ne have eq: "pit1 = pit'" by simp
  have "items (s1\<lparr>items := (items s1)(par \<mapsto> pit1\<lparr>compilation_artist_node := Some (next_item s)\<rparr>)\<rparr>)
          = (items s)(par \<mapsto> pit'\<lparr>compilation_artist_node := Some (next_item s)\<rparr>, next_item s \<mapsto> nit0)"
    using a(2) ne eq by (simp add: fun_upd_twist)
  with a b show ?thesis
    by (intro addedI [where pit = pit and pit' = "pit'\<lparr>compilation_artist_node := Some (next_item s)\<rparr>"
          and nit = nit0]) simp_all
qed

lemma new_CollectionItem_added:
  assumes "items s par = Some pit" and "par \<noteq> next_item s"
  shows "\<exists>s'. new_CollectionItem L ty (Some par) s = Some (next_item s, s') \<and>
           added par ty (- 1) False s s' \<and> fixed s' = fixed s \<and> divider_nodes s' = divider_nodes s \<and>
           show_dividers s' = show_dividers s"
proof -
  let ?nit = "blank_item L ty (Some par) (int (length (children pit)))"
  let ?s' = "s\<lparr>items := (items s)(par \<mapsto> pit\<lparr>children := children pit @ [next_item s]\<rparr>,
                               next_item s \<mapsto> ?nit),
               next_item := Suc (next_item s)\<rparr>"
  have "new_CollectionItem L ty (Some par) s = Some (next_item s, ?s')"
    using assms by (simp add: new_CollectionItem_def)
  moreover have "added par ty (- 1) False s ?s'"
    by (rule addedI [where pit = pit and pit' = "pit\<lparr>children := children pit @ [next_item s]\<rparr>"
          and nit = ?nit]) (simp_all add: assms blank_item_def)
  moreover have "fixed ?s' = fixed s" "divider_nodes ?s' = divider_nodes s"
    "show_dividers ?s' = show_dividers s" by (simp_all add: fixed_def)
  ultimately show ?thesis by blast
qed

lemma begin_insert_at_end_live:
  assumes "items s par = Some pit"
  shows "\<exists>sg. begin_insert_at_end par s = Some (emit sg s)"
  using assms by (auto simp: begin_insert_at_end_def ItemToIndex_def)

lemma fixed_emit [simp]: "fixed (emit sg s) = fixed s"
  by (simp add: fixed_def emit_def)

lemma misc_emit [simp]:
  "show_dividers (emit sg s) = show_dividers s"
  "container_nodes (emit sg s) = container_nodes s"
  "song_nodes (emit sg s) = song_nodes s"
  by (simp_all add: emit_def)

lemma tracked_fields:
  assumes "tracked s' = tracked s"
  shows "items s' = items s" "next_item s' = next_item s" "root s' = root s"
  using assms by (simp_all add: tracked_def)

lemma InitItem_added:
  assumes par: "items s par = Some pit" and ne: "par \<noteq> next_item s"
  shows "\<exists>s'. InitItem L gb True par lvl s = Some (next_item s, s') \<and>
           added par (if gb = GroupBy_None then Type_Song else Type_Container) lvl False s s' \<and>
           fixed s' = fixed s \<and> divider_nodes s' = divider_nodes s \<and>
           show_dividers s' = show_dividers s"
proof -
  let ?ty = "if gb = GroupBy_None then Type_Song else Type_Container"
  let ?f = "\<lambda>it. it\<lparr>compilation_artist_node := None, container_level := lvl\<rparr>"
  from begin_insert_at_end_live [OF par] obtain sg where
    s1: "begin_insert_at_end par s = Some (emit sg s)" by blast
  from new_CollectionItem_added [of "emit sg s" par pit L ?ty] par ne
  obtain s2 where s2: "new_CollectionItem L ?ty (Some par) (emit sg s) = Some (next_item s, s2)"
    "added par ?ty (- 1) False (emit sg s) s2" "fixed s2 = fixed s"
    "divider_nodes s2 = divider_nodes s" "show_dividers s2 = show_dividers s"
    by auto
  have ad2: "added par ?ty (- 1) False s s2"
    using s2(2) unfolding added_def by (simp add: emit_def)
  from added_new [OF ad2] obtain nit where nit: "items s2 (next_item s) = Some nit" by blast
  let ?s3 = "s2\<lparr>items := (items s2)(next_item s \<mapsto> ?f nit)\<rparr>"
  have s3: "update_item (next_item s) ?f s2 = Some ?s3"
    using nit by (simp add: update_item_def)
  have "added par ?ty (container_level (?f nit)) False s ?s3"
    by (rule added_update_new [OF ad2 nit]) simp_all
  then have ad3: "added par ?ty lvl False s ?s3" by simp
  have "InitItem L gb True par lvl s = Some (next_item s, ?s3)"
    unfolding InitItem_def using s1 s2(1) s3 by simp
  moreover have "fixed ?s3 = fixed s" using s2(3) by (simp add: fixed_def)
  moreover have "divider_nodes ?s3 = divider_nodes s" "show_dividers ?s3 = show_dividers s"
    using s2(4,5) by simp_all
  ultimately show ?thesis using ad3 by blast
qed

lemma fill_item_shape [simp]:
  "type (fill_item L s gb sep sg it) = type it"
  "parent (fill_item L s gb sep sg it) = parent it"
  "children (fill_item L s gb sep sg it) = children it"
  "container_level (fill_item L s gb sep sg it) = container_level it"
  "compilation_artist_node (fill_item L s gb sep sg it) = compilation_artist_node it"
  by (cases gb; simp)+

lemma fill_item_None_metadata [simp]:
  "metadata (fill_item L s GroupBy_None sep sg it) = sg"
  by simp

lemma added_emit_left:
  assumes "added par ty lvl link (emit sg s) s'"
  shows "added par ty lvl link s s'"
  using assms unfolding added_def by (simp add: emit_def cong: if_cong)

lemma divider_block:
  assumes par: "items s par = Some pit" and root: "root s = Some r" and rit: "items s r = Some rit"
    and ne: "r \<noteq> next_item s"
  shows "\<exists>s'. do {
             s3 \<leftarrow> begin_insert_at_end par s;
             (d, s4) \<leftarrow> new_CollectionItem L Type_Divider (root s3) s3;
             s5 \<leftarrow> update_item d (\<lambda>i. i\<lparr>key := dk, display_text := dt, sort_text := st\<rparr>) s4;
             let s6 = s5\<lparr>divider_nodes := (divider_nodes s5)(dk \<mapsto> d)\<rparr>;
             Some (emit endInsertRows s6)
           } = Some s' \<and> added r Type_Divider (- 1) False s s' \<and> fixed s' = fixed s"
proof -
  let ?f = "\<lambda>i. i\<lparr>key := dk, display_text := dt, sort_text := st\<rparr>"
  from begin_insert_at_end_live [OF par] obtain sg where
    s3: "begin_insert_at_end par s = Some (emit sg s)" by blast
  from new_CollectionItem_added [of "emit sg s" r rit L Type_Divider] rit ne
  obtain s4 where s4: "new_CollectionItem L Type_Divider (Some r) (emit sg s) = Some (next_item s, s4)"
    "added r Type_Divider (- 1) False (emit sg s) s4" "fixed s4 = fixed s"
    by auto
  note ad4 = added_emit_left [OF s4(2)]
  from added_new [OF ad4] obtain nit where nit: "items s4 (next_item s) = Some nit"
    "container_level nit = - 1" "compilation_artist_node nit = None" by blast
  let ?s5 = "s4\<lparr>items := (items s4)(next_item s \<mapsto> ?f nit)\<rparr>"
  have s5: "update_item (next_item s) ?f s4 = Some ?s5"
    using nit by (simp add: update_item_def)
  have "added r Type_Divider (container_level (?f nit)) False s ?s5"
    by (rule added_update_new [OF ad4 nit(1)]) (simp_all add: nit(3))
  then have ad5: "added r Type_Divider (- 1) False s ?s5" using nit(2) by simp
  let ?s' = "emit endInsertRows (?s5\<lparr>divider_nodes := (divider_nodes ?s5)(dk \<mapsto> next_item s)\<rparr>)"
  have "added r Type_Divider (- 1) False s ?s'"
    by (rule added_tracked [OF ad5]) simp
  moreover have "fixed ?s' = fixed s" using s4(3) by (simp add: fixed_def emit_def)
  moreover have "do {
             s3 \<leftarrow> begin_insert_at_end par s;
             (d, s4) \<leftarrow> new_CollectionItem L Type_Divider (root s3) s3;
             s5 \<leftarrow> update_item d ?f s4;
             let s6 = s5\<lparr>divider_nodes := (divider_nodes s5)(dk \<mapsto> d)\<rparr>;
             Some (emit endInsertRows s6)
           } = Some ?s'"
    using s3 s4(1) s5 root by (simp add: Let_def root_emit)
  ultimately show ?thesis by blast
qed

lemma FinishItem_no_divider_created:
  "FinishItem L gb True False par p s = Some (emit endInsertRows s)"
  by (simp add: FinishItem_def)

lemma FinishItem_added:
  assumes ad: "added par ty lvl link s0 s" and p: "p = next_item s0"
    and root: "root s0 = Some r" and rit: "items s0 r = Some rit" and rlt: "r < next_item s0"
    and plt: "par < next_item s0"
  shows "\<exists>s'. FinishItem L gb True cd par p s = Some s' \<and>
           (added par ty lvl link s0 s' \<or>
            (\<exists>s1. added par ty lvl link s0 s1 \<and> added r Type_Divider (- 1) False s1 s')) \<and>
           fixed s' = fixed s"
proof (cases "cd \<and> show_dividers s")
  case False
  then have "FinishItem L gb True cd par p s = Some (emit endInsertRows s)"
    by (auto simp: FinishItem_def)
  moreover have "added par ty lvl link s0 (emit endInsertRows s)"
    by (rule added_tracked [OF ad]) simp
  ultimately show ?thesis by auto
next
  case True
  let ?s1 = "emit endInsertRows s"
  have ad1: "added par ty lvl link s0 ?s1" by (rule added_tracked [OF ad]) simp
  from added_new [OF ad1] p obtain nit where nit: "items ?s1 p = Some nit"
    "container_level nit = lvl" "type nit = ty" "parent nit = Some par" "children nit = []"
    "compilation_artist_node nit = None" by auto
  define dk where "dk = DividerKey L gb nit"
  let ?f = "\<lambda>i. i\<lparr>sort_text := dk @ '' '' @ sort_text i\<rparr>"
  define s2 where "s2 = (if dk \<noteq> [] then ?s1\<lparr>items := (items ?s1)(p \<mapsto> ?f nit)\<rparr> else ?s1)"
  have s2: "(if dk \<noteq> [] then update_item p ?f ?s1 else Some ?s1) = Some s2"
    using nit(1) by (simp add: s2_def update_item_def)
  have "added par ty (container_level (?f nit)) link s0 (?s1\<lparr>items := (items ?s1)(next_item s0 \<mapsto> ?f nit)\<rparr>)"
    by (rule added_update_new [OF ad1]) (use nit p in simp_all)
  with ad1 nit(2) p have ad2: "added par ty lvl link s0 s2" by (simp add: s2_def)
  have fx2: "fixed s2 = fixed s" by (simp add: s2_def fixed_def emit_def)
  have sd2: "show_dividers s2 = show_dividers s" by (simp add: s2_def emit_def)
  show ?thesis
  proof (cases "dk \<noteq> [] \<and> divider_nodes s2 dk = None")
    case False
    with True s2 nit(1) have "FinishItem L gb True cd par p s = Some s2"
      by (auto simp: FinishItem_def Let_def dk_def)
    with ad2 fx2 show ?thesis by auto
  next
    case dv: True
    from added_parent [OF ad] obtain pit where pit: "items s0 par = Some pit" by blast
    from added_old [OF ad2 pit plt] obtain pit2 where pit2: "items s2 par = Some pit2" by blast
    from added_old [OF ad2 rit rlt] obtain rit2 where rit2: "items s2 r = Some rit2" by blast
    have r2: "root s2 = Some r" "r \<noteq> next_item s2"
      using added_fields [OF ad2] root rlt by simp_all
    from divider_block [OF pit2 r2(1) rit2 r2(2), where L = L and dk = dk
        and dt = "DividerDisplayText L gb dk" and st = "dk @ ''  ''"]
    obtain s' where s': "do {
             s3 \<leftarrow> begin_insert_at_end par s2;
             (d, s4) \<leftarrow> new_CollectionItem L Type_Divider (root s3) s3;
             s5 \<leftarrow> update_item d (\<lambda>i. i\<lparr>key := dk, display_text := DividerDisplayText L gb dk,
                                          sort_text := dk @ ''  ''\<rparr>) s4;
             let s6 = s5\<lparr>divider_nodes := (divider_nodes s5)(dk \<mapsto> d)\<rparr>;
             Some (emit endInsertRows s6)
           } = Some s'" "added r Type_Divider (- 1) False s2 s'" "fixed s' = fixed s2" by blast
    have "FinishItem L gb True cd par p s = Some s'"
      unfolding FinishItem_def using True nit(1) s2 dv s'(1)
      by (simp add: Let_def dk_def [symmetric])
    with ad2 s'(2,3) fx2 show ?thesis by auto
  qed
qed

lemma ItemFromSong_added:
  assumes par: "items s par = Some pit" and plt: "par < next_item s"
    and root: "root s = Some r" and rit: "items s r = Some rit" and rlt: "r < next_item s"
  shows "\<exists>s'. ItemFromSong L gb sep True cd par sg lvl s = Some (next_item s, s') \<and>
           (added par (if gb = GroupBy_None then Type_Song else Type_Container) lvl False s s' \<or>
            (\<exists>s1. added par (if gb = GroupBy_None then Type_Song else Type_Container) lvl False s s1 \<and>
                  added r Type_Divider (- 1) False s1 s')) \<and>
           fixed s' = fixed s"
proof -
  let ?ty = "if gb = GroupBy_None then Type_Song else Type_Container"
  from InitItem_added [OF par, of L gb lvl] plt obtain s1 where
    s1: "InitItem L gb True par lvl s = Some (next_item s, s1)" "added par ?ty lvl False s s1"
    "fixed s1 = fixed s" by auto
  from added_old [OF s1(2) par plt] obtain pit1 where pit1: "items s1 par = Some pit1" by blast
  from added_new [OF s1(2)] obtain nit where nit: "items s1 (next_item s) = Some nit"
    "container_level nit = lvl" by blast
  let ?f = "\<lambda>it. fill_item L s1 gb sep sg
              (if Some par \<noteq> root s1 \<and> key pit1 \<noteq> [] then it\<lparr>key := key pit1 @ ''-''\<rparr> else it)"
  let ?s2 = "s1\<lparr>items := (items s1)(next_item s \<mapsto> ?f nit)\<rparr>"
  have s2: "update_item (next_item s) ?f s1 = Some ?s2"
    using nit by (simp add: update_item_def)
  have "added par ?ty (container_level (?f nit)) False s ?s2"
    by (rule added_update_new [OF s1(2) nit(1)]) (use added_new [OF s1(2)] nit(1) in auto)
  moreover have "container_level (?f nit) = lvl" using nit(2) by simp
  ultimately have ad2: "added par ?ty lvl False s ?s2" by simp
  have fx2: "fixed ?s2 = fixed s" using s1(3) by (simp add: fixed_def)
  from FinishItem_added [OF ad2 refl root rit rlt plt, of L gb cd]
  obtain s' where s': "FinishItem L gb True cd par (next_item s) ?s2 = Some s'"
    "added par ?ty lvl False s s' \<or>
     (\<exists>s1. added par ?ty lvl False s s1 \<and> added r Type_Divider (- 1) False s1 s')"
    "fixed s' = fixed ?s2" by blast
  have "ItemFromSong L gb sep True cd par sg lvl s = Some (next_item s, s')"
    unfolding ItemFromSong_def using s1(1) pit1 s2 s'(1) by simp
  with s'(2,3) fx2 show ?thesis by auto
qed

lemma leaf_added:
  assumes par: "items s par = Some pit" and plt: "par < next_item s"
  shows "\<exists>s' nit. ItemFromSong L GroupBy_None sep True False par sg lvl s = Some (next_item s, s') \<and>
           added par Type_Song lvl False s s' \<and> items s' (next_item s) = Some nit \<and>
           metadata nit = sg \<and> fixed s' = fixed s"
proof -
  from InitItem_added [OF par, of L GroupBy_None lvl] plt obtain s1 where
    s1: "InitItem L GroupBy_None True par lvl s = Some (next_item s, s1)"
    "added par Type_Song lvl False s s1" "fixed s1 = fixed s" by auto
  from added_old [OF s1(2) par plt] obtain pit1 where pit1: "items s1 par = Some pit1" by blast
  from added_new [OF s1(2)] obtain nit where nit: "items s1 (next_item s) = Some nit"
    "container_level nit = lvl" by blast
  let ?f = "\<lambda>it. fill_item L s1 GroupBy_None sep sg
              (if Some par \<noteq> root s1 \<and> key pit1 \<noteq> [] then it\<lparr>key := key pit1 @ ''-''\<rparr> else it)"
  let ?s2 = "s1\<lparr>items := (items s1)(next_item s \<mapsto> ?f nit)\<rparr>"
  have s2: "update_item (next_item s) ?f s1 = Some ?s2"
    using nit by (simp add: update_item_def)
  have "added par Type_Song (container_level (?f nit)) False s ?s2"
    by (rule added_update_new [OF s1(2) nit(1)]) (use added_new [OF s1(2)] nit(1) in auto)
  moreover have "container_level (?f nit) = lvl" using nit(2) by simp
  ultimately have ad2: "added par Type_Song lvl False s ?s2" by simp
  have ad3: "added par Type_Song lvl False s (emit endInsertRows ?s2)"
    by (rule added_tracked [OF ad2]) simp
  have fx2: "fixed (emit endInsertRows ?s2) = fixed s" using s1(3) by (simp add: fixed_def emit_def)
  have "ItemFromSong L GroupBy_None sep True False par sg lvl s
          = Some (next_item s, emit endInsertRows ?s2)"
    unfolding ItemFromSong_def using s1(1) pit1 s2 by (simp add: FinishItem_no_divider_created)
  moreover have "items (emit endInsertRows ?s2) (next_item s) = Some (?f nit)" by simp
  moreover have "metadata (?f nit) = sg" by simp
  ultimately show ?thesis using ad3 fx2 by blast
qed

lemma CreateCompilationArtistNode_added:
  assumes par: "items s par = Some pit" and plt: "par < next_item s"
  shows "\<exists>s' cit. CreateCompilationArtistNode L True par s = Some (next_item s, s') \<and>
           added par Type_Container (container_level pit + 1) True s s' \<and> fixed s' = fixed s \<and>
           items s' (next_item s) = Some cit"
proof -
  from begin_insert_at_end_live [OF par] obtain sg where
    s1: "begin_insert_at_end par s = Some (emit sg s)" by blast
  from new_CollectionItem_added [of "emit sg s" par pit L Type_Container] par plt
  obtain s2 where s2: "new_CollectionItem L Type_Container (Some par) (emit sg s) = Some (next_item s, s2)"
    "added par Type_Container (- 1) False (emit sg s) s2" "fixed s2 = fixed s"
    by auto
  note ad2 = added_emit_left [OF s2(2)]
  from added_old [OF ad2 par plt] plt obtain pit2 where pit2: "items s2 par = Some pit2"
    "container_level pit2 = container_level pit" by auto
  from added_new [OF ad2] obtain nit where nit: "items s2 (next_item s) = Some nit" by blast
  let ?f = "\<lambda>it. it\<lparr>
             compilation_artist_node := None,
             key := (if Some par \<noteq> root s2 \<and> key pit2 \<noteq> [] then key pit2 else []) @ tr L kVariousArtists,
             display_text := tr L kVariousArtists,
             sort_text := '' various'',
             container_level := container_level pit2 + 1\<rparr>"
  let ?s3 = "s2\<lparr>items := (items s2)(next_item s \<mapsto> ?f nit)\<rparr>"
  have s3: "update_item (next_item s) ?f s2 = Some ?s3"
    using nit by (simp add: update_item_def)
  have "added par Type_Container (container_level (?f nit)) False s ?s3"
    by (rule added_update_new [OF ad2 nit]) simp_all
  then have ad3: "added par Type_Container (container_level pit + 1) False s ?s3"
    using pit2(2) by simp
  have pit3: "items ?s3 par = Some pit2" using pit2(1) plt by simp
  let ?s4 = "?s3\<lparr>items := (items ?s3)(par \<mapsto> pit2\<lparr>compilation_artist_node := Some (next_item s)\<rparr>)\<rparr>"
  have s4: "update_item par (\<lambda>it. it\<lparr>compilation_artist_node := Some (next_item s)\<rparr>) ?s3 = Some ?s4"
    using pit3 by (simp add: update_item_def)
  have ad4: "added par Type_Container (container_level pit + 1) True s ?s4"
    by (rule added_link [OF ad3 _ pit3]) (use plt in simp)
  have ad5: "added par Type_Container (container_level pit + 1) True s (emit endInsertRows ?s4)"
    by (rule added_tracked [OF ad4]) simp
  have "CreateCompilationArtistNode L True par s = Some (next_item s, emit endInsertRows ?s4)"
    unfolding CreateCompilationArtistNode_def using s1 s2(1) pit2(1) s3 s4 by simp
  moreover have "fixed (emit endInsertRows ?s4) = fixed s" using s2(3) by (simp add: fixed_def emit_def)
  moreover have "\<exists>cit. items (emit endInsertRows ?s4) (next_item s) = Some cit"
    using plt by simp
  ultimately show ?thesis using ad5 by blast
qed

lemma model_ok_added:
  assumes ok: "model_ok s" and ad: "added par ty lvl link s s'"
    and par: "items s par = Some pit"
    and ty: "ty = Type_Container \<or> ty = Type_Divider"
    and cont: "ty = Type_Container \<Longrightarrow>
                 0 \<le> lvl \<and> lvl \<le> 2 \<and> container_level pit = lvl - 1 \<and> holds_children pit"
    and lnk: "link \<Longrightarrow> ty = Type_Container"
  shows "model_ok s'"
proof -
  from ok have t: "tree_ok s" "tables_ok s" "songs_ok s" by (simp_all add: model_ok_def)
  have "tree_ok s'"
    by (rule tree_ok_added [OF t(1) ad par]) (use ty cont lnk in auto)
  moreover have "tables_ok s'" by (rule tables_ok_added [OF t(1,2) ad])
  moreover have "songs_ok s'" by (rule songs_ok_added [OF t(1,3) ad]) (use ty in auto)
  ultimately show ?thesis by (simp add: model_ok_def)
qed

lemma model_ok_root:
  assumes "model_ok s"
  shows "\<exists>r rit. root s = Some r \<and> items s r = Some rit \<and> r < next_item s \<and>
           type rit = Type_Root \<and> container_level rit = - 1"
proof -
  from assms have t: "tree_ok s" by (simp add: model_ok_def)
  then obtain r rit where r: "root s = Some r" "items s r = Some rit" "type rit = Type_Root"
    unfolding tree_ok_def by blast
  from tree_ok_live [OF t r(2)] r show ?thesis unfolding node_ok_def by auto
qed

lemma model_ok_live:
  assumes "model_ok s" and "items s p = Some it"
  shows "p < next_item s" and "node_ok s p it"
  using assms tree_ok_live unfolding model_ok_def by blast+

lemma model_ok_new_container:
  assumes ok: "model_ok s" and par: "items s par = Some pit" and hold: "holds_children pit"
    and lvl: "container_level pit = int i - 1" and i: "i < 3"
    and res: "added par Type_Container (int i) link s s' \<or>
              (\<exists>s1. added par Type_Container (int i) link s s1 \<and>
                    added r Type_Divider (- 1) False s1 s')"
    and root: "root s = Some r"
  shows "model_ok s' \<and> (\<exists>nit. items s' (next_item s) = Some nit \<and> type nit = Type_Container \<and>
           container_level nit = int i) \<and> song_nodes s' = song_nodes s \<and> songs s' = songs s \<and>
           container_nodes s' = container_nodes s"
  using res
proof
  assume ad: "added par Type_Container (int i) link s s'"
  have "model_ok s'"
    by (rule model_ok_added [OF ok ad par]) (use hold lvl i in auto)
  with added_new [OF ad] added_fields [OF ad] show ?thesis by auto
next
  assume "\<exists>s1. added par Type_Container (int i) link s s1 \<and> added r Type_Divider (- 1) False s1 s'"
  then obtain s1 where ad: "added par Type_Container (int i) link s s1"
    and dv: "added r Type_Divider (- 1) False s1 s'" by blast
  have ok1: "model_ok s1"
    by (rule model_ok_added [OF ok ad par]) (use hold lvl i in auto)
  from added_parent [OF dv] obtain rit1 where rit1: "items s1 r = Some rit1" by blast
  have ok': "model_ok s'"
    by (rule model_ok_added [OF ok1 dv rit1]) auto
  from added_new [OF ad] obtain nit where nit: "items s1 (next_item s) = Some nit"
    "type nit = Type_Container" "container_level nit = int i" by blast
  from added_old [OF dv nit(1) model_ok_live(1) [OF ok1 nit(1)]] nit
  have "\<exists>nit. items s' (next_item s) = Some nit \<and> type nit = Type_Container \<and>
           container_level nit = int i" by auto
  with ok' added_fields [OF ad] added_fields [OF dv] show ?thesis by auto
qed

lemma model_ok_table:
  assumes ok: "model_ok s" and c: "items s c = Some cit" "type cit = Type_Container"
    "container_level cit = int i"
  shows "model_ok (s\<lparr>container_nodes := (container_nodes s)(i := AList.update k c (container_nodes s i))\<rparr>)"
proof -
  let ?s' = "s\<lparr>container_nodes := (container_nodes s)(i := AList.update k c (container_nodes s i))\<rparr>"
  from ok have t: "tree_ok s" "tables_ok s" "songs_ok s" by (simp_all add: model_ok_def)
  have n: "node_ok ?s' p it = node_ok s p it" for p it by (simp add: node_ok_def)
  have "tree_ok ?s'" using t(1) unfolding tree_ok_def n by simp
  moreover have "songs_ok ?s'" using t(3) unfolding songs_ok_def by simp
  moreover have "tables_ok ?s'"
    unfolding tables_ok_def
  proof (intro allI impI)
    fix j k' c' assume a: "j < 3 \<and> map_of (container_nodes ?s' j) k' = Some c'"
    show "\<exists>it. items ?s' c' = Some it \<and> type it = Type_Container \<and> container_level it = int j"
    proof (cases "j = i \<and> k' = k")
      case True
      with a have "c' = c" by (simp add: update_conv')
      with c True show ?thesis by simp
    next
      case False
      with a have "map_of (container_nodes s j) k' = Some c'"
        by (auto simp: update_conv' split: if_splits)
      with a t(2) show ?thesis unfolding tables_ok_def by auto
    qed
  qed
  ultimately show ?thesis by (simp add: model_ok_def)
qed

lemma fixed_table [simp]:
  "fixed (s\<lparr>container_nodes := t\<rparr>) = fixed s"
  by (simp add: fixed_def)

lemma fixed_config:
  assumes "fixed s' = fixed s"
  shows "group_by s' = group_by s" "separate_albums_by_grouping s' = separate_albums_by_grouping s"
  using assms by (simp_all add: fixed_def)

lemma upt_3_Cons:
  assumes "[i..<3] = j # rest"
  shows "j = i \<and> rest = [Suc i..<3] \<and> i < 3"
  using assms by (cases "i < 3") (auto simp: upt_conv_Cons)

lemma find_containers_ok:
  assumes "model_ok s" and "items s c = Some cit" and "holds_children cit"
    and "container_level cit = int i - 1" and "lv = [i..<3]"
  shows "\<exists>c' s' cit'. find_containers L sg lv c k s = Some (c', s') \<and> model_ok s' \<and>
           items s' c' = Some cit' \<and> holds_children cit' \<and>
           song_nodes s' = song_nodes s \<and> songs s' = songs s \<and> fixed s' = fixed s"
  using assms
proof (induction lv arbitrary: i c k s cit)
  case Nil
  then show ?case by (simp add: find_containers.simps)
next
  case (Cons j rest)
  from upt_3_Cons [OF Cons.prems(5) [symmetric]] have j: "j = i" "rest = [Suc i..<3]" "i < 3"
    by auto
  note ok = Cons.prems(1) and c = Cons.prems(2) and hold = Cons.prems(3) and lvl = Cons.prems(4)
  define gb where "gb = Grouping_at (group_by s) (int i)"
  show ?case
  proof (cases "gb = GroupBy_None")
    case True
    with ok c hold show ?thesis by (simp add: find_containers.simps j gb_def)
  next
    case gbn: False
    show ?thesis
    proof (cases "IsArtistGroupBy gb \<and> is_compilation L sg")
      case True
      have "\<exists>va s1 vit. (case compilation_artist_node cit of
                                  None \<Rightarrow> CreateCompilationArtistNode L True c s
                                | Some va \<Rightarrow> Some (va, s)) = Some (va, s1) \<and> model_ok s1 \<and>
              items s1 va = Some vit \<and> type vit = Type_Container \<and> container_level vit = int i \<and>
              song_nodes s1 = song_nodes s \<and> songs s1 = songs s \<and> fixed s1 = fixed s"
      proof (cases "compilation_artist_node cit")
        case (Some va)
        with model_ok_live(2) [OF ok c] lvl obtain vit where "items s va = Some vit"
          "type vit = Type_Container" "container_level vit = int i"
          unfolding node_ok_def by auto
        with Some ok show ?thesis by auto
      next
        case None
        from CreateCompilationArtistNode_added [OF c model_ok_live(1) [OF ok c], of L]
        obtain s1 where s1: "CreateCompilationArtistNode L True c s = Some (next_item s, s1)"
          "added c Type_Container (container_level cit + 1) True s s1" "fixed s1 = fixed s"
          by blast
        from s1(2) lvl have ad: "added c Type_Container (int i) True s s1" by simp
        from model_ok_root [OF ok] obtain r where r: "root s = Some r" by blast
        from model_ok_new_container [OF ok c hold lvl j(3) disjI1 [OF ad] r] None s1(1,3)
        show ?thesis by auto
      qed
      then obtain va s1 vit where va: "(case compilation_artist_node cit of
                                  None \<Rightarrow> CreateCompilationArtistNode L True c s
                                | Some va \<Rightarrow> Some (va, s)) = Some (va, s1)" "model_ok s1"
        "items s1 va = Some vit" "type vit = Type_Container" "container_level vit = int i"
        "song_nodes s1 = song_nodes s" "songs s1 = songs s" "fixed s1 = fixed s" by blast
      from Cons.IH [of s1 va vit "Suc i" "key vit", OF va(2,3)] va(4,5) j(2)
      obtain c' s' cit' where r: "find_containers L sg rest va (key vit) s1 = Some (c', s')"
        "model_ok s'" "items s' c' = Some cit'" "holds_children cit'"
        "song_nodes s' = song_nodes s1" "songs s' = songs s1" "fixed s' = fixed s1"
        by (auto simp: holds_children_def)
      have "find_containers L sg (j # rest) c k s = Some (c', s')"
        using True gbn c va(1,3) r(1) by (simp add: find_containers.simps j(1) gb_def [symmetric])
      with r va show ?thesis by auto
    next
      case False
      define k2 where "k2 = (if k \<noteq> [] then k @ ''-'' else k) @
                              ContainerKey L gb (separate_albums_by_grouping s) sg"
      show ?thesis
      proof (cases "map_of (container_nodes s i) k2")
        case (Some c2)
        with ok j(3) obtain c2it where c2: "items s c2 = Some c2it" "type c2it = Type_Container"
          "container_level c2it = int i" unfolding model_ok_def tables_ok_def by blast
        from Cons.IH [of s c2 c2it "Suc i" k2, OF ok c2(1)] c2(2,3) j(2)
        obtain c' s' cit' where r: "find_containers L sg rest c2 k2 s = Some (c', s')"
          "model_ok s'" "items s' c' = Some cit'" "holds_children cit'"
          "song_nodes s' = song_nodes s" "songs s' = songs s" "fixed s' = fixed s"
          by (auto simp: holds_children_def)
        have "find_containers L sg (j # rest) c k s = Some (c', s')"
          using False gbn Some r(1)
          by (auto simp: find_containers.simps j(1) gb_def [symmetric] Let_def k2_def [symmetric])
        with r show ?thesis by auto
      next
        case None
        from model_ok_root [OF ok] obtain r rit where r: "root s = Some r" "items s r = Some rit"
          "r < next_item s" by blast
        from ItemFromSong_added [OF c model_ok_live(1) [OF ok c] r,
            of L gb "separate_albums_by_grouping s" "i = 0" sg "int i"] gbn
        obtain s1 where s1: "ItemFromSong L gb (separate_albums_by_grouping s) True (i = 0) c sg (int i) s
            = Some (next_item s, s1)"
          "added c Type_Container (int i) False s s1 \<or>
            (\<exists>s0. added c Type_Container (int i) False s s0 \<and> added r Type_Divider (- 1) False s0 s1)"
          "fixed s1 = fixed s" by auto
        from model_ok_new_container [OF ok c hold lvl j(3) s1(2) r(1)]
        obtain nit where n: "model_ok s1" "items s1 (next_item s) = Some nit"
          "type nit = Type_Container" "container_level nit = int i"
          "song_nodes s1 = song_nodes s" "songs s1 = songs s" by blast
        let ?s2 = "s1\<lparr>container_nodes := (container_nodes s1)
                          (i := AList.update k2 (next_item s) (container_nodes s1 i))\<rparr>"
        have ok2: "model_ok ?s2" by (rule model_ok_table [OF n(1,2,3,4)])
        have it2: "items ?s2 (next_item s) = Some nit" using n(2) by simp
        from Cons.IH [of ?s2 "next_item s" nit "Suc i" k2, OF ok2 it2] n(3,4) j(2)
        obtain c' s' cit' where r2: "find_containers L sg rest (next_item s) k2 ?s2 = Some (c', s')"
          "model_ok s'" "items s' c' = Some cit'" "holds_children cit'"
          "song_nodes s' = song_nodes ?s2" "songs s' = songs ?s2" "fixed s' = fixed ?s2"
          by (auto simp: holds_children_def)
        have "find_containers L sg (j # rest) c k s = Some (c', s')"
          using False gbn None s1(1) r2(1)
          by (auto simp: find_containers.simps j(1) gb_def [symmetric] Let_def k2_def [symmetric])
        with r2 n s1(3) show ?thesis by auto
      qed
    qed
  qed
qed

lemma model_ok_songs [simp]:
  "model_ok (s\<lparr>songs := m\<rparr>) = model_ok s"
  by (simp add: model_ok_def tree_ok_def node_ok_def tables_ok_def songs_ok_def)

lemma fixed_songs [simp]:
  "fixed (s\<lparr>songs := m\<rparr>) = fixed s" "fixed (s\<lparr>song_nodes := n\<rparr>) = fixed s"
  by (simp_all add: fixed_def)

lemma tree_ok_song_nodes [simp]:
  "tree_ok (s\<lparr>song_nodes := n\<rparr>) = tree_ok s"
  "tables_ok (s\<lparr>song_nodes := n\<rparr>) = tables_ok s"
  by (simp_all add: tree_ok_def node_ok_def tables_ok_def)

lemma AddSong_ok:
  assumes ok: "model_ok s"
  shows "\<exists>s'. AddSong L sg s = Some s' \<and> model_ok s' \<and> fixed s' = fixed s \<and>
           dom (song_nodes s') = dom (song_nodes s) \<union> (if Matches L sg then {song_id sg} else {})"
proof -
  let ?s1 = "s\<lparr>songs := (songs s)(song_id sg \<mapsto> sg)\<rparr>"
  have ok1: "model_ok ?s1" using ok by simp
  show ?thesis
  proof (cases "Matches L sg \<and> song_nodes s (song_id sg) = None")
    case False
    then have "AddSong L sg s = Some ?s1" by (auto simp: AddSong_def Let_def)
    moreover have "dom (song_nodes ?s1)
        = dom (song_nodes s) \<union> (if Matches L sg then {song_id sg} else {})"
      using False by auto
    ultimately show ?thesis using ok1 by simp
  next
    case True
    from model_ok_root [OF ok1] obtain r rit where r: "root ?s1 = Some r" "items ?s1 r = Some rit"
      "type rit = Type_Root" "container_level rit = - 1" by blast
    from find_containers_ok [OF ok1 r(2), of 0 "[0, 1, 2]" L sg "[]"] r(3,4)
    obtain c s2 cit where s2: "find_containers L sg [0, 1, 2] r [] ?s1 = Some (c, s2)"
      "model_ok s2" "items s2 c = Some cit" "holds_children cit"
      "song_nodes s2 = song_nodes ?s1" "fixed s2 = fixed ?s1"
      by (auto simp: holds_children_def upt_rec)
    from leaf_added [OF s2(3) model_ok_live(1) [OF s2(2,3)], of L "separate_albums_by_grouping s2" sg "- 1"]
    obtain s3 nit where s3: "ItemFromSong L GroupBy_None (separate_albums_by_grouping s2) True False
        c sg (- 1) s2 = Some (next_item s2, s3)" "added c Type_Song (- 1) False s2 s3"
      "items s3 (next_item s2) = Some nit" "metadata nit = sg" "fixed s3 = fixed s2" by blast
    let ?s' = "s3\<lparr>song_nodes := (song_nodes s3)(song_id sg \<mapsto> next_item s2)\<rparr>"
    from s2(2) have t2: "tree_ok s2" "tables_ok s2" "songs_ok s2" by (simp_all add: model_ok_def)
    have "tree_ok s3"
      by (rule tree_ok_added [OF t2(1) s3(2) s2(3)]) (use s2(4) in auto)
    moreover have "tables_ok s3" by (rule tables_ok_added [OF t2(1,2) s3(2)])
    moreover have "songs_ok ?s'"
      by (rule songs_ok_added_song [OF t2(1,3) s3(2,3,4)]) (use True s2(5) in simp)
    ultimately have ok': "model_ok ?s'" by (simp add: model_ok_def)
    have "AddSong L sg s = Some ?s'"
      using True r(1) s2(1) s3(1) by (simp add: AddSong_def Let_def)
    moreover have "dom (song_nodes ?s') = dom (song_nodes s) \<union> {song_id sg}"
      using added_fields(3) [OF s3(2)] s2(5) by auto
    moreover have "fixed ?s' = fixed s" using s3(5) s2(6) by simp
    ultimately show ?thesis using ok' True by simp
  qed
qed

lemma AddSongs_ok:
  assumes "model_ok s"
  shows "\<exists>s'. AddSongs L S s = Some s' \<and> model_ok s' \<and> fixed s' = fixed s \<and>
           dom (song_nodes s') = dom (song_nodes s) \<union> {song_id sg | sg. sg \<in> set S \<and> Matches L sg}"
  using assms
proof (induction S arbitrary: s)
  case Nil
  then show ?case by simp
next
  case (Cons a S)
  from AddSong_ok [OF Cons.prems, of L a] obtain s1 where s1: "AddSong L a s = Some s1"
    "model_ok s1" "fixed s1 = fixed s"
    "dom (song_nodes s1) = dom (song_nodes s) \<union> (if Matches L a then {song_id a} else {})"
    by blast
  from Cons.IH [OF s1(2)] obtain s' where s': "AddSongs L S s1 = Some s'" "model_ok s'"
    "fixed s' = fixed s1"
    "dom (song_nodes s') = dom (song_nodes s1) \<union> {song_id sg | sg. sg \<in> set S \<and> Matches L sg}"
    by blast
  have "AddSongs L (a # S) s = Some s'" using s1(1) s'(1) by simp
  moreover have "dom (song_nodes s') =
      dom (song_nodes s) \<union> {song_id sg | sg. sg \<in> set (a # S) \<and> Matches L sg}"
    unfolding s'(4) s1(4) by auto
  ultimately show ?case using s'(2,3) s1(3) by auto
qed

lemma model_ok_new:
  "model_ok (configure g sep skip dividers (CollectionModel_new L))"
  unfolding model_ok_def
proof (intro conjI)
  let ?s = "configure g sep skip dividers (CollectionModel_new L)"
  have f: "items ?s = [0 \<mapsto> blank_item L Type_Root None (- 1)]" "next_item ?s = 1"
    "root ?s = Some 0" "song_nodes ?s = Map.empty" "container_nodes ?s = (\<lambda>i. [])"
    by (simp_all add: configure_def CollectionModel_new_def)
  show "tree_ok ?s"
    unfolding tree_ok_def node_ok_def f by (auto simp: blank_item_def split: if_splits)
  show "tables_ok ?s" unfolding tables_ok_def f by simp
  show "songs_ok ?s" unfolding songs_ok_def f by (auto simp: blank_item_def split: if_splits)
qed

section \<open>Flattening the tree\<close>

lemma deref_all_live:
  assumes "\<forall>c \<in> set cs. items s c \<noteq> None"
  shows "\<exists>xs. deref_all s cs = Some xs \<and> map fst xs = cs"
  using assms by (induction cs) auto

lemma set_insert_item: "set (insert_item x ys) = insert x (set ys)"
  by (induction ys) auto

lemma set_sort_items: "set (sort_items xs) = set xs"
  unfolding sort_items_def by (induction xs) (simp_all add: set_insert_item)

lemma sorted_children_live:
  assumes "\<forall>c \<in> set cs. items s c \<noteq> None"
  shows "\<exists>cs'. sorted_children s cs = Some cs' \<and> set cs' = set cs"
proof -
  from deref_all_live [OF assms] obtain xs where xs: "deref_all s cs = Some xs" "map fst xs = cs"
    by blast
  have "set (map fst (sort_items xs)) = set (map fst xs)" by (simp add: set_sort_items)
  with xs show ?thesis by (simp add: sorted_children_def)
qed

lemma depth_ok_live:
  assumes "depth_ok n s p"
  shows "items s p \<noteq> None"
  using assms by (cases n) (auto split: option.splits)

lemma GetChildSongs_each_collects:
  assumes step: "\<And>p urls sl. depth_ok n s p \<Longrightarrow> distinct (map song_id sl) \<Longrightarrow>
             \<exists>urls' sl'. GetChildSongs n s p (urls, sl, set (map song_id sl))
                 = Some (urls', sl', set (map song_id sl')) \<and>
               distinct (map song_id sl') \<and>
               set (map song_id sl') = set (map song_id sl) \<union> leaf_ids n s p"
    and "\<forall>c \<in> set cs. depth_ok n s c" and "distinct (map song_id sl)"
  shows "\<exists>urls' sl'. GetChildSongs_each n s cs (urls, sl, set (map song_id sl))
                 = Some (urls', sl', set (map song_id sl')) \<and>
               distinct (map song_id sl') \<and>
               set (map song_id sl') = set (map song_id sl) \<union> (\<Union>c \<in> set cs. leaf_ids n s c)"
  using assms(2,3)
proof (induction cs arbitrary: urls sl)
  case Nil
  then show ?case by simp
next
  case (Cons c cs)
  from step [of c sl urls] Cons.prems obtain urls1 sl1 where
    1: "GetChildSongs n s c (urls, sl, set (map song_id sl)) = Some (urls1, sl1, set (map song_id sl1))"
    "distinct (map song_id sl1)" "set (map song_id sl1) = set (map song_id sl) \<union> leaf_ids n s c"
    by auto
  from Cons.IH [of sl1 urls1] Cons.prems 1(2) obtain urls' sl' where
    2: "GetChildSongs_each n s cs (urls1, sl1, set (map song_id sl1))
          = Some (urls', sl', set (map song_id sl'))"
    "distinct (map song_id sl')"
    "set (map song_id sl') = set (map song_id sl1) \<union> (\<Union>c \<in> set cs. leaf_ids n s c)"
    by auto
  have "GetChildSongs_each n s (c # cs) (urls, sl, set (map song_id sl))
          = Some (urls', sl', set (map song_id sl'))"
    using 1(1) 2(1) by simp
  moreover have "set (map song_id sl')
      = set (map song_id sl) \<union> (\<Union>c \<in> set (c # cs). leaf_ids n s c)"
    unfolding 2(3) 1(3) by auto
  ultimately show ?case using 2(2) by blast
qed

lemma GetChildSongs_leaf:
  assumes "items s p = Some it" and "type it \<noteq> Type_Container" and "distinct (map song_id sl)"
  shows "\<exists>urls' sl'. GetChildSongs n s p (urls, sl, set (map song_id sl))
                 = Some (urls', sl', set (map song_id sl')) \<and>
               distinct (map song_id sl') \<and>
               set (map song_id sl') = set (map song_id sl) \<union> leaf_ids n s p"
  using assms by (cases n; cases "type it") auto

lemma GetChildSongs_collects:
  assumes "depth_ok n s p" and "distinct (map song_id sl)"
  shows "\<exists>urls' sl'. GetChildSongs n s p (urls, sl, set (map song_id sl))
                 = Some (urls', sl', set (map song_id sl')) \<and>
               distinct (map song_id sl') \<and>
               set (map song_id sl') = set (map song_id sl) \<union> leaf_ids n s p"
  using assms
proof (induction n arbitrary: p urls sl)
  case 0
  then obtain it where it: "items s p = Some it" "type it \<noteq> Type_Container"
    by (auto split: option.splits)
  show ?case by (rule GetChildSongs_leaf [OF it 0(2)])
next
  case (Suc n)
  from depth_ok_live [OF Suc.prems(1)] obtain it where it: "items s p = Some it" by auto
  show ?case
  proof (cases "type it = Type_Container")
    case False
    show ?thesis by (rule GetChildSongs_leaf [OF it False Suc.prems(2)])
  next
    case True
    with Suc.prems(1) it have ch: "\<forall>c \<in> set (children it). depth_ok n s c" by simp
    then have "\<forall>c \<in> set (children it). items s c \<noteq> None" using depth_ok_live by blast
    from sorted_children_live [OF this] obtain cs where
      cs: "sorted_children s (children it) = Some cs" "set cs = set (children it)" by blast
    from ch cs(2) have ch': "\<forall>c \<in> set cs. depth_ok n s c" by simp
    from GetChildSongs_each_collects [OF Suc.IH ch' Suc.prems(2), of urls]
    obtain urls' sl' where e: "GetChildSongs_each n s cs (urls, sl, set (map song_id sl))
          = Some (urls', sl', set (map song_id sl'))" "distinct (map song_id sl')"
      "set (map song_id sl') = set (map song_id sl) \<union> (\<Union>c \<in> set cs. leaf_ids n s c)"
      by blast
    have "GetChildSongs (Suc n) s p (urls, sl, set (map song_id sl))
          = Some (urls', sl', set (map song_id sl'))"
      using it True cs(1) e(1) by simp
    moreover have "leaf_ids (Suc n) s p = (\<Union>c \<in> set cs. leaf_ids n s c)"
      using it True cs(2) by simp
    ultimately show ?thesis using e(2,3) by auto
  qed
qed

lemma GetChildSongs_loop_rows:
  "GetChildSongs_loop n s (map (\<lambda>(i, p). Index (int i) p) (enumerate k cs)) acc
     = GetChildSongs_each n s cs acc"
  by (induction cs arbitrary: k acc) (auto simp: IndexToItem_def split: option.splits)

lemma leaf_ids_mono: "leaf_ids n s p \<subseteq> leaf_ids (Suc n) s p"
proof (induction n arbitrary: p)
  case 0
  show ?case by (auto split: option.splits)
next
  case (Suc n)
  show ?case
  proof (cases "items s p")
    case None
    then show ?thesis by simp
  next
    case (Some it)
    have "(\<Union>c \<in> set (children it). leaf_ids n s c)
            \<subseteq> (\<Union>c \<in> set (children it). leaf_ids (Suc n) s c)"
      using Suc.IH by blast
    with Some show ?thesis by (simp del: leaf_ids.simps(2) add: leaf_ids.simps(2) [of "Suc n"] leaf_ids.simps(2) [of n])
  qed
qed

lemma leaf_ids_le:
  assumes "m \<le> n"
  shows "leaf_ids m s p \<subseteq> leaf_ids n s p"
  using assms
proof (induction n)
  case 0
  then show ?case by simp
next
  case (Suc n)
  then show ?case using leaf_ids_mono [of n s p] by (cases "m = Suc n") auto
qed

lemma depth_ok_mono:
  assumes "depth_ok n s p"
  shows "depth_ok (Suc n) s p"
  using assms
proof (induction n arbitrary: p)
  case 0
  then show ?case by (auto split: option.splits)
next
  case (Suc n)
  from depth_ok_live [OF Suc.prems] obtain it where it: "items s p = Some it" by auto
  show ?case
  proof (cases "type it = Type_Container")
    case False
    with it show ?thesis by (simp add: depth_ok.simps(2) [of "Suc n"])
  next
    case True
    with Suc.prems it have "\<forall>c \<in> set (children it). depth_ok n s c" by simp
    with Suc.IH have "\<forall>c \<in> set (children it). depth_ok (Suc n) s c" by blast
    with it show ?thesis by (simp add: depth_ok.simps(2) [of "Suc n"])
  qed
qed

lemma depth_ok_le:
  assumes "depth_ok m s p" and "m \<le> n"
  shows "depth_ok n s p"
  using assms(2,1)
proof (induction n)
  case 0
  then show ?case by simp
next
  case (Suc n)
  then show ?case using depth_ok_mono [of n s p] by (cases "m = Suc n") auto
qed

lemma leaf_ids_are_songs:
  assumes "k \<in> leaf_ids n s p"
  shows "\<exists>q it. items s q = Some it \<and> type it = Type_Song \<and> song_id (metadata it) = k"
  using assms
proof (induction n arbitrary: p)
  case 0
  then show ?case by (auto split: option.splits if_splits)
next
  case (Suc n)
  then show ?case by (fastforce split: option.splits if_splits)
qed

lemma child_of_container:
  assumes ok: "model_ok s" and it: "items s p = Some it" and c: "c \<in> set (children it)"
  shows "\<exists>cit. items s c = Some cit \<and> parent cit = Some p \<and>
           (type cit = Type_Container \<longrightarrow> container_level cit = container_level it + 1 \<and>
              container_level it \<le> 1)"
proof -
  from model_ok_live(2) [OF ok it] c obtain cit where cit: "items s c = Some cit"
    "parent cit = Some p" unfolding node_ok_def by blast
  have "container_level cit = container_level it + 1 \<and> container_level it \<le> 1"
    if "type cit = Type_Container"
    using model_ok_live(2) [OF ok cit(1)] that cit(2) it unfolding node_ok_def by auto
  with cit show ?thesis by blast
qed

lemma container_depth:
  assumes ok: "model_ok s" and "items s p = Some it" and "type it = Type_Container"
    and "2 - int d \<le> container_level it"
  shows "depth_ok (Suc d) s p"
  using assms(2-)
proof (induction d arbitrary: p it)
  case 0
  have "depth_ok 0 s c" if "c \<in> set (children it)" for c
    using child_of_container [OF ok 0(1) that] 0(3) by auto
  with 0(1) show ?case by simp
next
  case (Suc d)
  have "depth_ok (Suc d) s c" if "c \<in> set (children it)" for c
  proof -
    from child_of_container [OF ok Suc.prems(1) that] obtain cit where cit: "items s c = Some cit"
      "type cit = Type_Container \<longrightarrow> container_level cit = container_level it + 1" by blast
    show ?thesis
    proof (cases "type cit = Type_Container")
      case True
      with cit(2) Suc.prems(3) have "2 - int d \<le> container_level cit" by simp
      from Suc.IH [OF cit(1) True this] show ?thesis .
    next
      case False
      with cit(1) show ?thesis by simp
    qed
  qed
  with Suc.prems(1) show ?case by (simp add: depth_ok.simps(2) [of "Suc d"])
qed

lemma top_level_depth:
  assumes ok: "model_ok s" and r: "root s = Some r" "items s r = Some rit"
    and c: "c \<in> set (children rit)"
  shows "depth_ok 3 s c"
proof -
  from child_of_container [OF ok r(2) c] obtain cit where cit: "items s c = Some cit"
    "type cit = Type_Container \<longrightarrow> container_level cit = container_level rit + 1" by blast
  show ?thesis
  proof (cases "type cit = Type_Container")
    case True
    from model_ok_live(2) [OF ok cit(1)] True have "0 \<le> container_level cit"
      unfolding node_ok_def by simp
    then have "2 - int 2 \<le> container_level cit" by simp
    from container_depth [OF ok cit(1) True this] show ?thesis by (simp add: eval_nat_numeral)
  next
    case False
    with cit(1) show ?thesis by (simp add: eval_nat_numeral)
  qed
qed

lemma leaf_ids_child:
  assumes "items s p = Some it" and "type it = Type_Container" and "c \<in> set (children it)"
    and "k \<in> leaf_ids m s c"
  shows "k \<in> leaf_ids (Suc m) s p"
  using assms by auto

lemma leaf_reaches_top:
  assumes ok: "model_ok s" and r: "root s = Some r" "items s r = Some rit"
    and "items s p = Some it" and "type it = Type_Container \<or> type it = Type_Song"
    and "parent it = Some par" and "items s par = Some pit"
    and "container_level pit = int d - 1" and "k \<in> leaf_ids m s p"
  shows "\<exists>c \<in> set (children rit). k \<in> leaf_ids (m + d) s c"
  using assms(4-)
proof (induction d arbitrary: p it par pit m)
  case 0
  from model_ok_live(2) [OF ok 0(1)] 0(2,3,4) have in_par: "p \<in> set (children pit)"
    and hold: "holds_children pit" unfolding node_ok_def by auto
  from model_ok_live(2) [OF ok 0(4)] 0(5) hold have "type pit = Type_Root"
    unfolding node_ok_def holds_children_def by auto
  with model_ok_live(2) [OF ok 0(4)] r 0(4) have "pit = rit" unfolding node_ok_def by auto
  with in_par 0(6) show ?case by auto
next
  case (Suc d)
  from model_ok_live(2) [OF ok Suc.prems(1)] Suc.prems(2,3,4) have in_par: "p \<in> set (children pit)"
    and hold: "holds_children pit" unfolding node_ok_def by auto
  from model_ok_live(2) [OF ok Suc.prems(4)] Suc.prems(5) hold have cont: "type pit = Type_Container"
    unfolding node_ok_def holds_children_def by auto
  with model_ok_live(2) [OF ok Suc.prems(4)] Suc.prems(5) obtain gp gpit where
    gp: "parent pit = Some gp" "items s gp = Some gpit" "container_level gpit = int d - 1"
    unfolding node_ok_def by auto
  have "k \<in> leaf_ids (Suc m) s par"
    by (rule leaf_ids_child [OF Suc.prems(4) cont in_par Suc.prems(6)])
  from Suc.IH [OF Suc.prems(4) disjI1 [OF cont] gp this] show ?case by simp
qed

lemma top_level_leaves:
  assumes ok: "model_ok s" and r: "root s = Some r" "items s r = Some rit" and n: "3 \<le> n"
  shows "(\<Union>c \<in> set (children rit). leaf_ids n s c) = dom (song_nodes s)"
proof (intro equalityI subsetI)
  fix k assume "k \<in> (\<Union>c \<in> set (children rit). leaf_ids n s c)"
  then obtain c where "k \<in> leaf_ids n s c" by blast
  from leaf_ids_are_songs [OF this] obtain q it where "items s q = Some it" "type it = Type_Song"
    "song_id (metadata it) = k" by blast
  with ok show "k \<in> dom (song_nodes s)" unfolding model_ok_def songs_ok_def by blast
next
  fix k assume "k \<in> dom (song_nodes s)"
  with ok obtain q it where q: "items s q = Some it" "type it = Type_Song"
    "song_id (metadata it) = k" unfolding model_ok_def songs_ok_def by blast
  from model_ok_live(2) [OF ok q(1)] q(2) obtain par pit where par: "parent it = Some par"
    "items s par = Some pit" "holds_children pit" unfolding node_ok_def by auto
  from model_ok_live(2) [OF ok par(2)] par(3)
  have "- 1 \<le> container_level pit \<and> container_level pit \<le> 2"
    unfolding node_ok_def holds_children_def by auto
  then obtain d where d: "container_level pit = int d - 1" "d \<le> 3"
    by (intro that [of "nat (container_level pit + 1)"]) auto
  have "k \<in> leaf_ids 0 s q" using q by simp
  from leaf_reaches_top [OF ok r q(1) disjI2 [OF q(2)] par(1,2) d(1) this]
  obtain c where c: "c \<in> set (children rit)" "k \<in> leaf_ids d s c" by auto
  from leaf_ids_le [of d n s c] d(2) n c(2) have "k \<in> leaf_ids n s c" by auto
  with c(1) show "k \<in> (\<Union>c \<in> set (children rit). leaf_ids n s c)" by blast
qed

lemma top_level_flatten:
  assumes ok: "model_ok s" and n: "3 \<le> n"
  shows "\<exists>out. GetChildSongs_indexes n s (top_level_indexes s) = Some out \<and>
           distinct (map song_id out) \<and> set (map song_id out) = dom (song_nodes s)"
proof -
  from model_ok_root [OF ok] obtain r rit where r: "root s = Some r" "items s r = Some rit"
    by blast
  have d: "\<forall>c \<in> set (children rit). depth_ok n s c"
    using top_level_depth [OF ok r] depth_ok_le [OF _ n] by blast
  from GetChildSongs_each_collects [where sl = "[]" and urls = "[]", OF GetChildSongs_collects d]
  obtain urls' sl' where e: "GetChildSongs_each n s (children rit) ([], [], {})
      = Some (urls', sl', set (map song_id sl'))" "distinct (map song_id sl')"
    "set (map song_id sl') = (\<Union>c \<in> set (children rit). leaf_ids n s c)" by auto
  have "GetChildSongs_indexes n s (top_level_indexes s) = Some sl'"
    using r e(1) by (simp add: GetChildSongs_indexes_def top_level_indexes_def GetChildSongs_loop_rows)
  with e(2,3) top_level_leaves [OF ok r n] show ?thesis by simp
qed

lemma root_flatten:
  assumes ok: "model_ok s"
  shows "GetChildSongs_index n s InvalidIndex = Some []"
proof -
  from model_ok_root [OF ok] obtain r rit where r: "root s = Some r" "items s r = Some rit"
    "type rit = Type_Root" by blast
  then have "GetChildSongs n s r ([], [], {}) = Some ([], [], {})" by (cases n) simp_all
  with r(1) show ?thesis
    by (simp add: GetChildSongs_index_def GetChildSongs_indexes_def IndexToItem_def)
qed

lemma reset_model_configure:
  "reset_model L g dividers = configure g False True dividers (CollectionModel_new L)"
  by (simp add: reset_model_def configure_def CollectionModel_new_def)

text \<open>
  Claim C1, as stated, fails: \<open>GetChildSongs\<close> on the root returns no song at all, because
  the root is neither a container nor a song leaf. One matching song added to the empty
  tree, no grouping: the flattened root is the empty list.
\<close>

theorem flatten_root_counterexample:
  "Matches example_Lib tracked_Song \<and>
   Option.bind (AddSongs example_Lib [tracked_Song] (reset_model example_Lib no_grouping True))
     (flatten_root 3) = Some []"
proof -
  have ok: "model_ok (reset_model example_Lib no_grouping True)"
    unfolding reset_model_configure by (rule model_ok_new)
  from AddSongs_ok [OF ok, of example_Lib "[tracked_Song]"] obtain s' where
    s': "AddSongs example_Lib [tracked_Song] (reset_model example_Lib no_grouping True) = Some s'"
    "model_ok s'" by blast
  from root_flatten [OF s'(2), of 3] s'(1) show ?thesis
    by (simp add: flatten_root_def example_Lib_def)
qed

text \<open>
  Claim C1, amended. For every grouping triple, every setting of the display options and
  every finite song list added through \<open>AddSongs\<close> to the tree that holds the root only,
  the addition returns, and flattening the top-level rows of the tree (\<open>GetChildSongs\<close> on
  the list of the children of the root, with a recursion depth of three or more) yields
  songs whose identifiers are, as a multiset, exactly the set of the identifiers of the
  songs of the list that match the filter: each of them once, and no other.
\<close>

theorem flatten_top_level_is_matching_songs:
  assumes "3 \<le> n"
  shows "\<exists>s' out. AddSongs L S (configure g sep skip dividers (CollectionModel_new L)) = Some s' \<and>
           flatten_top_level n s' = Some out \<and>
           mset (map song_id out) = mset_set {song_id sg | sg. sg \<in> set S \<and> Matches L sg}"
proof -
  from AddSongs_ok [OF model_ok_new, of L S g sep skip dividers] obtain s' where
    s': "AddSongs L S (configure g sep skip dividers (CollectionModel_new L)) = Some s'"
    "model_ok s'"
    "dom (song_nodes s') = dom (song_nodes (configure g sep skip dividers (CollectionModel_new L)))
       \<union> {song_id sg | sg. sg \<in> set S \<and> Matches L sg}" by blast
  have "song_nodes (configure g sep skip dividers (CollectionModel_new L)) = Map.empty"
    by (simp add: configure_def CollectionModel_new_def)
  with s'(3) have d: "dom (song_nodes s') = {song_id sg | sg. sg \<in> set S \<and> Matches L sg}"
    by simp
  from top_level_flatten [OF s'(2) assms] obtain out where
    out: "GetChildSongs_indexes n s' (top_level_indexes s') = Some out"
    "distinct (map song_id out)" "set (map song_id out) = dom (song_nodes s')" by blast
  have "mset_set (set (map song_id out)) = mset (map song_id out)"
    by (rule mset_set_set [OF out(2)])
  then have "mset (map song_id out) = mset_set (set (map song_id out))" by (rule sym)
  with out(1,3) d s'(1) show ?thesis by (auto simp: flatten_top_level_def)
qed

theorem flatten_top_level_is_matching_songs_witness:
  "(3::nat) \<le> 3 \<and>
   (\<exists>s' out. AddSongs only_song_7 [tracked_Song, untracked_Song]
        (configure artist_album_grouping False True True (CollectionModel_new only_song_7)) = Some s' \<and>
      flatten_top_level 3 s' = Some out \<and> mset (map song_id out) = {#7#})"
proof -
  have "{song_id sg | sg. sg \<in> set [tracked_Song, untracked_Song] \<and> Matches only_song_7 sg} = {7}"
  proof -
    have "song_id tracked_Song = 7" "song_id untracked_Song = 9"
      by (simp_all add: tracked_Song_def untracked_Song_def)
    then show ?thesis by (auto simp: only_song_7_def)
  qed
  with flatten_top_level_is_matching_songs [of 3 only_song_7 "[tracked_Song, untracked_Song]"
      artist_album_grouping False True True]
  show ?thesis by simp
qed

end
